theory Spec2Isabelle
  imports Complex_Main "HOL-Library.Word"
begin

section \<open>Raytrace orchestrator of \<^verbatim>\<open>ttcr3d.cpp\<close>: thread count and work partitioning\<close>

text \<open>
  All counters of \<^verbatim>\<open>body\<close> are \<^verbatim>\<open>size_t\<close>. They are modelled as natural numbers,
  with the reduction modulo \<open>2 ^ 64\<close> written at the sums of lines 46 and 158; the
  increments of the loop counters stay below the bounds of their loops.
\<close>

definition size_t_mod :: "nat \<Rightarrow> nat" where
  "size_t_mod n = n mod 2 ^ 64"

datatype error =
    DivisionByZero       \<comment> \<open>\<^verbatim>\<open>nTx % num_threads\<close> with \<^verbatim>\<open>num_threads == 0\<close>\<close>
  | IndexOutOfRange      \<comment> \<open>\<^verbatim>\<open>operator[]\<close> or \<^verbatim>\<open>back()\<close> outside the vector\<close>
  | CannotOpenFile       \<comment> \<open>\<^verbatim>\<open>exit(1)\<close> after a failed \<^verbatim>\<open>fout.open\<close>\<close>

text \<open>
  Lines 41--50. \<open>nt\<close> is \<^verbatim>\<open>par.nt\<close>, \<open>hardware_threads\<close> the value of
  \<^verbatim>\<open>std::thread::hardware_concurrency()\<close>, \<open>nTx\<close> is \<^verbatim>\<open>src.size()\<close>.
\<close>

definition num_threads :: "nat \<Rightarrow> nat \<Rightarrow> nat \<Rightarrow> nat" where
  "num_threads nt hardware_threads nTx =
     (if nt = 0 then
        (let min_per_thread = 5;
             max_threads = size_t_mod (nTx + min_per_thread - 1) div min_per_thread
         in min (if hardware_threads \<noteq> 0 then hardware_threads else 2) max_threads)
      else (if nt < nTx then nt else nTx))"

text \<open>Line 52. The remainder and the quotient by zero do not return.\<close>

definition blk_size :: "nat \<Rightarrow> nat \<Rightarrow> error + nat" where
  "blk_size nTx nthr =
     (if nthr = 0 then Inl DivisionByZero
      else Inr ((if nTx mod nthr \<noteq> 0 then 1 else 0) + nTx div nthr))"

text \<open>
  Lines 155--187 (and 241--269): the loop that starts the worker threads. Worker \<open>i\<close>
  captures \<open>blk_start\<close> and \<open>blk_end\<close> by value and calls \<^verbatim>\<open>raytrace\<close> with thread
  number \<open>i + 1\<close>. The loop returns the captured blocks, in the order of the threads,
  and the value of \<open>blk_start\<close> after it. It is reached with \<^verbatim>\<open>num_threads\<close> above 1
  only: a thread count of 0 has stopped the run at line 52, and a count of 1 takes the
  other branch.
\<close>

function spawn_workers :: "nat \<Rightarrow> nat \<Rightarrow> nat \<Rightarrow> nat \<Rightarrow> (nat \<times> nat \<times> nat) list \<times> nat" where
  "spawn_workers i nthr bsz blk_start =
     (if i < nthr - 1 then
        (let blk_end = size_t_mod (blk_start + bsz);
             (ths, fin) = spawn_workers (i + 1) nthr bsz blk_end
         in ((i + 1, blk_start, blk_end) # ths, fin))
      else ([], blk_start))"
  by pat_completeness auto
termination
  by (relation "measure (\<lambda>(i, nthr, bsz, blk_start). nthr - 1 - i)") auto

declare spawn_workers.simps [simp del]

text \<open>
  The loop \<^verbatim>\<open>for ( size_t n=blk_start; n<blk_end; ++n )\<close> of one thread reads
  \<^verbatim>\<open>src[n]\<close>, \<^verbatim>\<open>r_data[n]\<close> and the travel time tables at \<open>n\<close>; all of them have
  \<open>nTx\<close> entries, and an index from \<open>nTx\<close> on is outside them. The result is the list
  of the source indices the thread raytraces.
\<close>

function run_block :: "nat \<Rightarrow> nat \<Rightarrow> nat \<Rightarrow> error + nat list" where
  "run_block nTx n blk_end =
     (if n < blk_end then
        (if n < nTx then
           (case run_block nTx (n + 1) blk_end of
              Inl e \<Rightarrow> Inl e
            | Inr ns \<Rightarrow> Inr (n # ns))
         else Inl IndexOutOfRange)
      else Inr [])"
  by pat_completeness auto
termination
  by (relation "measure (\<lambda>(nTx, n, blk_end). blk_end - n)") auto

declare run_block.simps [simp del]

text \<open>
  The schedule of one run: for every thread its thread number (0 is the main thread)
  and the outcome of its loop. With one thread (lines 129--150, 213--236) the main
  thread runs every source; otherwise the workers come first and the main thread runs
  the block from the last \<open>blk_start\<close> to \<open>nTx\<close> (lines 188--207, 270--286).
\<close>

definition dispatch :: "nat \<Rightarrow> nat \<Rightarrow> error + (nat \<times> (error + nat list)) list" where
  "dispatch nTx nthr =
     (case blk_size nTx nthr of
        Inl e \<Rightarrow> Inl e
      | Inr bsz \<Rightarrow>
          (if nthr = 1 then Inr [(0, run_block nTx 0 nTx)]
           else
             (let (ths, blk_start) = spawn_workers 0 nthr bsz 0
              in Inr (map (\<lambda>(slot, b, e). (slot, run_block nTx b e)) ths
                      @ [(0, run_block nTx blk_start nTx)]))))"

section \<open>The rectilinear grid of \<^verbatim>\<open>Grid3Dr.h\<close>\<close>

text \<open>
  \<^verbatim>\<open>Grid3Dr<T1,T2>\<close> is a template over the coordinate type \<open>T1\<close> and the index type
  \<open>T2\<close>. The program instantiates \<open>T2\<close> with \<^verbatim>\<open>uint32_t\<close>, modelled as \<^typ>\<open>32 word\<close>
  (its arithmetic wraps), and \<open>T1\<close> with \<^verbatim>\<open>float\<close> or \<^verbatim>\<open>double\<close>. A finite value of
  \<open>T1\<close> is modelled as the \<^typ>\<open>real\<close> number it stands for; infinities and NaN are
  not values of the model. \<^verbatim>\<open>check_pts\<close> only compares coordinates, and its comparisons
  are those of the source. \<^verbatim>\<open>getCellNo\<close> computes, and each of its operations is
  modelled with its rounding. The constructor is given with exact sums (\<open>Grid3Dr\<close>)
  and with the roundings of \<open>T1\<close> (\<open>Grid3Dr_T1\<close>).
\<close>

record sxyz =
  x :: real
  y :: real
  z :: real

record grid =
  nThreads :: nat
  dx :: real
  dy :: real
  dz :: real
  xmin :: real
  ymin :: real
  zmin :: real
  xmax :: real
  ymax :: real
  zmax :: real
  ncx :: "32 word"
  ncy :: "32 word"
  ncz :: "32 word"
  nsnx :: "32 word"
  nsny :: "32 word"
  nsnz :: "32 word"

text \<open>The constructor, lines 34--45.\<close>

definition Grid3Dr ::
  "32 word \<Rightarrow> 32 word \<Rightarrow> 32 word \<Rightarrow> real \<Rightarrow> real \<Rightarrow> real \<Rightarrow> real \<Rightarrow> real \<Rightarrow> real \<Rightarrow>
   32 word \<Rightarrow> 32 word \<Rightarrow> 32 word \<Rightarrow> nat \<Rightarrow> grid" where
  "Grid3Dr nx ny nz ddx ddy ddz minx miny minz nnx nny nnz nt =
     \<lparr> nThreads = nt,
       dx = ddx, dy = ddy, dz = ddz,
       xmin = minx, ymin = miny, zmin = minz,
       xmax = minx + real (unat nx) * ddx,
       ymax = miny + real (unat ny) * ddy,
       zmax = minz + real (unat nz) * ddz,
       ncx = nx, ncy = ny, ncz = nz,
       nsnx = nnx, nsny = nny, nsnz = nnz \<rparr>"

definition getNumberOfCells :: "grid \<Rightarrow> 32 word" where
  "getNumberOfCells g = ncx g * ncy g * ncz g"

definition getNumberOfNodes :: "grid \<Rightarrow> nat" where
  "getNumberOfNodes g = 0"

text \<open>
  Lines 68--69. Both bodies are empty: the grid is returned as it was, and the overload
  on a vector returns 0.
\<close>

definition setSlowness :: "grid \<Rightarrow> real \<Rightarrow> grid" where
  "setSlowness g s = g"

definition setSlowness_vector :: "grid \<Rightarrow> real list \<Rightarrow> int \<times> grid" where
  "setSlowness_vector g s = (0, g)"

subsection \<open>The arithmetic of \<^verbatim>\<open>T1\<close> and \<^verbatim>\<open>double\<close>\<close>

text \<open>
  \<^verbatim>\<open>getCellNo\<close> computes in \<open>T1\<close> and in \<^verbatim>\<open>double\<close>, and every operation rounds its exact
  result to the nearest value of its type, ties to the even significand (the default
  IEEE 754 mode; each operation is rounded on its own, in the type C++ gives it, with
  no excess precision and no fused multiply-add). \<open>round_fp p qmin emax\<close> is this
  rounding for a binary format with \<open>p\<close> significand bits, least exponent \<open>qmin\<close> of the
  unit in the last place (subnormal numbers included) and largest exponent \<open>emax\<close>; the
  result is \<open>None\<close> when the rounded value is beyond the largest finite number, where the
  machine gives an infinity.
\<close>

function bits :: "nat \<Rightarrow> nat" where
  "bits n = (if n = 0 then 0 else 1 + bits (n div 2))"
  by pat_completeness auto
termination
  by (relation "measure (\<lambda>n. n)") auto

declare bits.simps [simp del]

definition pow2 :: "int \<Rightarrow> real" where
  "pow2 k = (if 0 \<le> k then 2 ^ nat k else 1 / 2 ^ nat (- k))"

text \<open>The binary exponent of a positive number: \<open>pow2 (ilog2 v) \<le> v < pow2 (ilog2 v + 1)\<close>.\<close>

definition ilog2 :: "real \<Rightarrow> int" where
  "ilog2 v = (if 1 \<le> v then int (bits (nat \<lfloor>v\<rfloor>)) - 1
              else - int (bits (nat (\<lceil>1 / v\<rceil> - 1))))"

definition round_half_even :: "real \<Rightarrow> int" where
  "round_half_even t =
     (let f = \<lfloor>t\<rfloor>; r = t - of_int f
      in if r < 1 / 2 then f else if 1 / 2 < r then f + 1 else if even f then f else f + 1)"

definition round_fp :: "nat \<Rightarrow> int \<Rightarrow> int \<Rightarrow> real \<Rightarrow> real option" where
  "round_fp p qmin emax v =
     (if v = 0 then Some 0
      else
        (let q = max (ilog2 \<bar>v\<bar> - int p + 1) qmin;
             r = of_int (round_half_even (v / pow2 q)) * pow2 q
         in if \<bar>r\<bar> < pow2 (emax + 1) then Some r else None))"

text \<open>\<^verbatim>\<open>float\<close> is IEEE binary32 and \<^verbatim>\<open>double\<close> is IEEE binary64.\<close>

definition round_float :: "real \<Rightarrow> real option" where
  "round_float = round_fp 24 (- 149) 127"

definition round_double :: "real \<Rightarrow> real option" where
  "round_double = round_fp 53 (- 1074) 1023"

text \<open>
  The three roundings that \<^verbatim>\<open>getCellNo\<close> meets: \<open>rT\<close> into \<open>T1\<close>; \<open>rD\<close> into
  \<^verbatim>\<open>double\<close>, the type of \<^verbatim>\<open>.5*dx\<close> and of \<^verbatim>\<open>xmax-.5*dx\<close> since \<^verbatim>\<open>.5\<close> is a
  \<^verbatim>\<open>double\<close>; and \<open>rS\<close> into the type of the sum \<^verbatim>\<open>small + (x-xmin)/dx\<close>, the wider of
  \<open>T1\<close> and the type of \<^verbatim>\<open>small\<close>. The program runs \<open>T1 = float\<close> and \<open>T1 = double\<close>;
  they are given here for a \<^verbatim>\<open>small\<close> of type \<^verbatim>\<open>double\<close>.
\<close>

record arith =
  rT :: "real \<Rightarrow> real option"
  rD :: "real \<Rightarrow> real option"
  rS :: "real \<Rightarrow> real option"

definition float_arith :: arith where
  "float_arith = \<lparr>rT = round_float, rD = round_double, rS = round_double\<rparr>"


text \<open>
  The constructor (lines 34--45) with the roundings of \<open>T1\<close>: in \<^verbatim>\<open>minx+nx*ddx\<close> the
  count \<^verbatim>\<open>nx\<close> is converted to \<open>T1\<close>, then multiplied, then added. The result is \<open>None\<close>
  when a maximum is not finite. Where none of these operations rounds, the grid is
  the one of \<^const>\<open>Grid3Dr\<close>.
\<close>

definition Grid3Dr_T1 ::
  "arith \<Rightarrow> 32 word \<Rightarrow> 32 word \<Rightarrow> 32 word \<Rightarrow> real \<Rightarrow> real \<Rightarrow> real \<Rightarrow> real \<Rightarrow> real \<Rightarrow> real \<Rightarrow>
   32 word \<Rightarrow> 32 word \<Rightarrow> 32 word \<Rightarrow> nat \<Rightarrow> grid option" where
  "Grid3Dr_T1 A nx ny nz ddx ddy ddz minx miny minz nnx nny nnz nt =
     (let end_of = (\<lambda>n dd mn.
            Option.bind (rT A (real (unat n))) (\<lambda>n'.
            Option.bind (rT A (n' * dd)) (\<lambda>len. rT A (mn + len))))
      in case (end_of nx ddx minx, end_of ny ddy miny, end_of nz ddz minz) of
           (Some maxx, Some maxy, Some maxz) \<Rightarrow>
             Some \<lparr> nThreads = nt,
                    dx = ddx, dy = ddy, dz = ddz,
                    xmin = minx, ymin = miny, zmin = minz,
                    xmax = maxx, ymax = maxy, zmax = maxz,
                    ncx = nx, ncy = ny, ncz = nz,
                    nsnx = nnx, nsny = nny, nsnz = nnz \<rparr>
         | _ \<Rightarrow> None)"

subsection \<open>\<^verbatim>\<open>getCellNo\<close>\<close>

text \<open>
  \<^verbatim>\<open>static_cast<T2>\<close> of a floating value drops the fractional part. The conversion is
  undefined in C++ when the truncated value is not a value of \<^verbatim>\<open>uint32_t\<close>, and when
  the operand is an infinity or a NaN; undefined behaviour is the result \<open>None\<close>.
\<close>

definition static_cast_T2 :: "real \<Rightarrow> 32 word option" where
  "static_cast_T2 v =
     (let k = (if 0 \<le> v then \<lfloor>v\<rfloor> else \<lceil>v\<rceil>)
      in if 0 \<le> k \<and> k < 2 ^ 32 then Some (word_of_int k) else None)"

text \<open>
  Lines 90--92 (and 102--104), for one axis:
  \<^verbatim>\<open>T1 x = xmax-pt.x < small ? xmax-.5*dx : pt.x;\<close>
  The constant \<^verbatim>\<open>small\<close> is declared outside \<^verbatim>\<open>Grid3Dr.h\<close>, so it is an argument. The
  difference is taken in \<open>T1\<close>; when it overflows it is an infinity with the sign of
  the exact difference, and the comparison holds for the negative one. The snapped
  value is computed in \<^verbatim>\<open>double\<close> and converted to \<open>T1\<close>. \<open>None\<close> is a value that is
  not finite: it reaches the conversion of line 93, which is then undefined.
\<close>

definition snapped :: "arith \<Rightarrow> real \<Rightarrow> real \<Rightarrow> real \<Rightarrow> real \<Rightarrow> real option" where
  "snapped A small cmax d c =
     (if (case rT A (cmax - c) of Some t \<Rightarrow> t < small | None \<Rightarrow> cmax - c < 0)
      then Option.bind (rD A (0.5 * d)) (\<lambda>h. Option.bind (rD A (cmax - h)) (rT A))
      else Some c)"

text \<open>
  Lines 93--95 (and 105--107), for one axis:
  \<^verbatim>\<open>T2 nx = static_cast<T2>( small + (x-xmin)/dx );\<close>
  A division by a cell size of 0 gives an infinity or a NaN.
\<close>

definition cell_no :: "arith \<Rightarrow> real \<Rightarrow> real \<Rightarrow> real \<Rightarrow> real option \<Rightarrow> 32 word option" where
  "cell_no A small cmin d c' =
     Option.bind c' (\<lambda>c.
     Option.bind (rT A (c - cmin)) (\<lambda>u.
     Option.bind (if d = 0 then None else rT A (u / d)) (\<lambda>w.
     Option.bind (rS A (small + w)) static_cast_T2)))"

text \<open>
  \<^verbatim>\<open>getCellNo(const sxyz<T1>&)\<close>, lines 89--97: lines 90--95 give the three cell
  numbers, line 96 combines them in \<^verbatim>\<open>uint32_t\<close>. The point and the fields of the grid
  are finite values of \<open>T1\<close>.
\<close>

definition cell_numbers ::
  "arith \<Rightarrow> real \<Rightarrow> grid \<Rightarrow> sxyz \<Rightarrow> 32 word option \<times> 32 word option \<times> 32 word option" where
  "cell_numbers A small g pt =
     (let x' = snapped A small (xmax g) (dx g) (x pt);
          y' = snapped A small (ymax g) (dy g) (y pt);
          z' = snapped A small (zmax g) (dz g) (z pt);
          nx = cell_no A small (xmin g) (dx g) x';
          ny = cell_no A small (ymin g) (dy g) y';
          nz = cell_no A small (zmin g) (dz g) z'
      in (nx, ny, nz))"

definition getCellNo :: "arith \<Rightarrow> real \<Rightarrow> grid \<Rightarrow> sxyz \<Rightarrow> 32 word option" where
  "getCellNo A small g pt =
     (case cell_numbers A small g pt of
        (Some nx, Some ny, Some nz) \<Rightarrow> Some (ny * ncx g + nz * (ncx g * ncy g) + nx)
      | _ \<Rightarrow> None)"



text \<open>A value for \<^verbatim>\<open>small\<close> in the examples: the \<^verbatim>\<open>double\<close> nearest to \<open>1e-5\<close>.\<close>

definition small_1e5 :: real where
  "small_1e5 = 5902958103587057 / 590295810358705651712"

subsection \<open>\<^verbatim>\<open>check_pts\<close>\<close>

text \<open>
  \<^verbatim>\<open>check_pts\<close>, lines 116--130. The result is the returned \<^verbatim>\<open>int\<close> together with
  the point number written to \<^verbatim>\<open>std::cerr\<close>, if one is written.
\<close>

function check_pts_loop :: "grid \<Rightarrow> sxyz list \<Rightarrow> nat \<Rightarrow> int \<times> nat option" where
  "check_pts_loop g pts n =
     (if n < length pts then
        (if x (pts ! n) < xmin g \<or> x (pts ! n) > xmax g \<or>
            y (pts ! n) < ymin g \<or> y (pts ! n) > ymax g \<or>
            z (pts ! n) < zmin g \<or> z (pts ! n) > zmax g
         then (1, Some (n + 1))
         else check_pts_loop g pts (n + 1))
      else (0, None))"
  by pat_completeness auto
termination
  by (relation "measure (\<lambda>(g, pts, n). length pts - n)") auto

declare check_pts_loop.simps [simp del]

definition check_pts :: "grid \<Rightarrow> sxyz list \<Rightarrow> int \<times> nat option" where
  "check_pts g pts = check_pts_loop g pts 0"

section \<open>Stitching of reflected ray paths (\<^verbatim>\<open>ttcr3d.cpp\<close>, lines 324--347 and 381--404)\<close>

text \<open>
  A ray path is a vector of points. The stitching only copies points and compares them
  with \<^verbatim>\<open>operator==\<close> of \<^verbatim>\<open>sxyz<T>\<close>, which is declared outside \<^verbatim>\<open>ttcr3d.cpp\<close>: the
  point type is a type variable and the comparison an argument \<open>eq\<close>.

  \<^verbatim>\<open>v[i]\<close> and \<^verbatim>\<open>v.back()\<close> do not check their argument; a read outside the vector is
  the error \<^const>\<open>IndexOutOfRange\<close>.
\<close>

definition at_index :: "'b list \<Rightarrow> nat \<Rightarrow> error + 'b" where
  "at_index v i = (if i < length v then Inr (v ! i) else Inl IndexOutOfRange)"

definition back_of :: "'b list \<Rightarrow> error + 'b" where
  "back_of v = (if v = [] then Inl IndexOutOfRange else Inr (last v))"

text \<open>
  \<^verbatim>\<open>for ( size_t i=i0; i<v.size(); ++i ) r.push_back( v[i] );\<close> (lines 333--338); the
  reads are in range by the loop condition.
\<close>

function push_back_from :: "nat \<Rightarrow> 'b list \<Rightarrow> 'b list \<Rightarrow> 'b list" where
  "push_back_from i v r = (if i < length v then push_back_from (i + 1) v (r @ [v ! i]) else r)"
  by pat_completeness auto
termination
  by (relation "measure (\<lambda>(i, v, r). length v - i)") auto

declare push_back_from.simps [simp del]

text \<open>
  The loop over \<open>n\<close> (lines 330--341) for one receiver: \<open>pt1\<close> is the first point of the
  receiver's path \<open>p2\<close> from the reflector, \<open>r\<close> is \<^verbatim>\<open>r_tmp[irx]\<close>, and the list is what
  is left of \<^verbatim>\<open>rfl_r_data[nr][ns]\<close> from \<open>n\<close> on. The loop stops at the first path whose
  last point compares equal to \<open>pt1\<close>.
\<close>

fun find_junction :: "('p \<Rightarrow> 'p \<Rightarrow> bool) \<Rightarrow> 'p \<Rightarrow> 'p list \<Rightarrow> 'p list \<Rightarrow> 'p list list \<Rightarrow> error + 'p list" where
  "find_junction eq pt1 p2 r [] = Inr r"
| "find_junction eq pt1 p2 r (p # ps) =
     (case back_of p of
        Inl e \<Rightarrow> Inl e
      | Inr b \<Rightarrow>
          (if eq pt1 b then Inr (push_back_from 1 p2 (push_back_from 0 p r))
           else find_junction eq pt1 p2 r ps))"

text \<open>The body of the loop over \<open>irx\<close> (lines 329--341).\<close>

definition stitch_receiver ::
  "('p \<Rightarrow> 'p \<Rightarrow> bool) \<Rightarrow> 'p list list \<Rightarrow> 'p list list \<Rightarrow> nat \<Rightarrow> 'p list \<Rightarrow> error + 'p list" where
  "stitch_receiver eq rfl rfl2 irx r =
     (case at_index rfl2 irx of
        Inl e \<Rightarrow> Inl e
      | Inr p2 \<Rightarrow>
          (case at_index p2 0 of
             Inl e \<Rightarrow> Inl e
           | Inr pt1 \<Rightarrow> find_junction eq pt1 p2 r rfl))"

text \<open>
  The loop over the receivers (lines 327--342). \<open>nrcv\<close> is \<^verbatim>\<open>rcv.get_coord().size()\<close>,
  \<open>rfl\<close> is \<^verbatim>\<open>rfl_r_data[nr][ns]\<close> (the paths from the source to the reflector) and
  \<open>rfl2\<close> is \<^verbatim>\<open>rfl2_r_data[nr][ns]\<close> (the paths from the reflector to the receivers).
\<close>

function stitch_loop ::
  "('p \<Rightarrow> 'p \<Rightarrow> bool) \<Rightarrow> nat \<Rightarrow> 'p list list \<Rightarrow> 'p list list \<Rightarrow> nat \<Rightarrow> 'p list list \<Rightarrow>
   error + 'p list list" where
  "stitch_loop eq nrcv rfl rfl2 irx r_tmp =
     (if irx < nrcv then
        (case stitch_receiver eq rfl rfl2 irx (r_tmp ! irx) of
           Inl e \<Rightarrow> Inl e
         | Inr r \<Rightarrow> stitch_loop eq nrcv rfl rfl2 (irx + 1) (r_tmp[irx := r]))
      else Inr r_tmp)"
  by pat_completeness auto
termination
  by (relation "measure (\<lambda>(eq, nrcv, rfl, rfl2, irx, r_tmp). nrcv - irx)") auto

declare stitch_loop.simps [simp del]

text \<open>Line 326 (383) creates \<^verbatim>\<open>r_tmp\<close> with one empty path for each receiver.\<close>

definition stitch ::
  "('p \<Rightarrow> 'p \<Rightarrow> bool) \<Rightarrow> nat \<Rightarrow> 'p list list \<Rightarrow> 'p list list \<Rightarrow> error + 'p list list" where
  "stitch eq nrcv rfl rfl2 = stitch_loop eq nrcv rfl rfl2 0 (replicate nrcv [])"

text \<open>
  The stitching stands under \<^verbatim>\<open>if ( par.saveRaypaths )\<close> (lines 318, 375), and
  \<^verbatim>\<open>r_tmp\<close> is handed to \<^verbatim>\<open>saveRayPaths\<close> right after the loop (lines 345, 402). The
  result is the collection that is saved for one reflector and one source, if any.
\<close>

definition reflected_raypaths ::
  "bool \<Rightarrow> ('p \<Rightarrow> 'p \<Rightarrow> bool) \<Rightarrow> nat \<Rightarrow> 'p list list \<Rightarrow> 'p list list \<Rightarrow>
   error + 'p list list option" where
  "reflected_raypaths saveRaypaths eq nrcv rfl rfl2 =
     (if saveRaypaths then
        (case stitch eq nrcv rfl rfl2 of
           Inl e \<Rightarrow> Inl e
         | Inr r_tmp \<Rightarrow> Inr (Some r_tmp))
      else Inr None)"

text \<open>
  Modelled from the spec: \<^verbatim>\<open>operator==\<close> of \<^verbatim>\<open>sxyz<T>\<close>, whose declaration is not in
  \<^verbatim>\<open>Grid3Dr.h\<close> or \<^verbatim>\<open>ttcr3d.cpp\<close>; the spec calls it exact equality of the points.
\<close>

definition sxyz_eq :: "sxyz \<Rightarrow> sxyz \<Rightarrow> bool" where
  "sxyz_eq a b \<longleftrightarrow> x a = x b \<and> y a = y b \<and> z a = z b"

section \<open>The global ray path file (\<^verbatim>\<open>ttcr3d.cpp\<close>, lines 349--357 and 409--468)\<close>

text \<open>
  The file is a sequence of writes. \<^verbatim>\<open>fout.write((char*)&size,sizeof(size_t))\<close> is the
  item \<open>Size\<close>, the bytes of one point of \<^verbatim>\<open>fout.write((char*)v.data(), sizeof(sxyz<T>) * size)\<close>
  are an item \<open>Point\<close>, and the formatted \<^verbatim>\<open>fout << r_data.size()\<close> is \<open>Formatted\<close>.
  The byte layout of the items is outside the model.
\<close>

datatype 'p item = Size nat | Point 'p | Formatted nat

text \<open>Lines 425--428: one path, \<^verbatim>\<open>r_data[n][nr]\<close>.\<close>

definition write_path :: "'p item list \<Rightarrow> 'p list \<Rightarrow> 'p item list" where
  "write_path fout v = (fout @ [Size (length v)]) @ map Point (take (length v) v)"

text \<open>Lines 422--429: the loop over \<open>nr\<close>, after the size of \<^verbatim>\<open>r_data[n]\<close>.\<close>

definition write_paths :: "'p item list \<Rightarrow> 'p list list \<Rightarrow> 'p item list" where
  "write_paths fout v = foldl write_path (fout @ [Size (length v)]) v"

text \<open>Lines 419--430: \<^verbatim>\<open>r_data\<close>; lines 435--446: \<^verbatim>\<open>rfl_r_data[r]\<close>.\<close>

definition write_paths3 :: "'p item list \<Rightarrow> 'p list list list \<Rightarrow> 'p item list" where
  "write_paths3 fout v = foldl write_paths (fout @ [Size (length v)]) v"

text \<open>Lines 432--447: \<^verbatim>\<open>rfl_r_data\<close>; lines 449--464: \<^verbatim>\<open>rfl2_r_data\<close>.\<close>

definition write_paths4 :: "'p item list \<Rightarrow> 'p list list list list \<Rightarrow> 'p item list" where
  "write_paths4 fout v = foldl write_paths3 (fout @ [Size (length v)]) v"

text \<open>
  What becomes of \<^verbatim>\<open>basename_rp.bin\<close>: \<open>Inr None\<close> when the file is not written,
  \<open>Inr (Some items)\<close> when it is, \<open>Inl CannotOpenFile\<close> for \<^verbatim>\<open>exit(1)\<close>. \<open>nsrc\<close> is
  \<^verbatim>\<open>src.size()\<close>, \<open>nrefl\<close> is \<^verbatim>\<open>reflectors.size()\<close>, \<open>opens\<close> tells whether
  \<^verbatim>\<open>fout.open\<close> succeeds. With one source (lines 349--357) the stream is not tested and
  a stream that did not open writes nothing.
\<close>

definition save_rp_bin ::
  "bool \<Rightarrow> nat \<Rightarrow> nat \<Rightarrow> bool \<Rightarrow> 'p list list list \<Rightarrow> 'p list list list list \<Rightarrow>
   'p list list list list \<Rightarrow> error + 'p item list option" where
  "save_rp_bin saveRaypaths nsrc nrefl opens r_data rfl_r_data rfl2_r_data =
     (if nsrc = 1 then
        (if saveRaypaths \<and> nrefl > 0 \<and> opens then Inr (Some [Formatted (length r_data)])
         else Inr None)
      else
        (if saveRaypaths \<and> nrefl > 0 then
           (if \<not> opens then Inl CannotOpenFile
            else Inr (Some (write_paths4 (write_paths4 (write_paths3 [] r_data) rfl_r_data)
                              rfl2_r_data)))
         else Inr None))"

text \<open>
  The format in the words of the specification: every nesting level is preceded by its
  own element count, and a path is its point count followed by its points.
\<close>

definition enc_path :: "'p list \<Rightarrow> 'p item list" where
  "enc_path v = Size (length v) # map Point v"

definition enc_nested :: "('b \<Rightarrow> 'p item list) \<Rightarrow> 'b list \<Rightarrow> 'p item list" where
  "enc_nested enc v = Size (length v) # concat (map enc v)"

text \<open>
  The bounds in the words of the specification: every coordinate of the point lies in
  the closed interval from the minimum to the maximum of its axis.
\<close>

definition within_bounds :: "grid \<Rightarrow> sxyz \<Rightarrow> bool" where
  "within_bounds g p \<longleftrightarrow>
     xmin g \<le> x p \<and> x p \<le> xmax g \<and> ymin g \<le> y p \<and> y p \<le> ymax g \<and>
     zmin g \<le> z p \<and> z p \<le> zmax g"









section \<open>Thread count and work partitioning: results\<close>

lemma ceil_div5: "(n + 4) div 5 = nat \<lceil>real n / 5\<rceil>"
proof -
  have "real n / 5 = of_int (int n) / of_int 5" by simp
  hence "\<lceil>real n / 5\<rceil> = - (- int n div 5)"
    by (simp only: ceiling_divide_eq_div)
  also have "\<dots> = (int n + 4) div 5" by presburger
  finally have "\<lceil>real n / 5\<rceil> = int ((n + 4) div 5)"
    by (simp add: zdiv_int)
  thus ?thesis by simp
qed

text \<open>
  Claim C5. With an explicit thread count \<open>nt > 0\<close> the number of threads is
  \<open>min nt nSources\<close>. With \<open>nt = 0\<close> it is the minimum of the hardware concurrency (2
  when that is reported as 0) and \<open>ceil (nSources / 5)\<close>; the sum \<^verbatim>\<open>nTx+min_per_thread-1\<close>
  is taken in \<^verbatim>\<open>size_t\<close>, so this is stated for the source counts where it does not
  wrap, which are all the sizes a vector can have. With 23 sources and a hardware
  concurrency of 8 the count is at most \<open>ceil (23 / 5) = 5\<close> and at most 8.
\<close>

theorem num_threads_policy:
  "(0 < nt \<longrightarrow> num_threads nt hw nTx = min nt nTx) \<and>
   (nTx + 4 < 2 ^ 64 \<longrightarrow>
      num_threads 0 hw nTx = min (if hw = 0 then 2 else hw) (nat \<lceil>real nTx / 5\<rceil>)) \<and>
   num_threads 0 8 23 \<le> nat \<lceil>real (23::nat) / 5\<rceil> \<and> nat \<lceil>real (23::nat) / 5\<rceil> = 5 \<and>
   num_threads 0 8 23 \<le> 8"
proof (intro conjI impI)
  assume "0 < nt"
  thus "num_threads nt hw nTx = min nt nTx"
    by (simp add: num_threads_def min_def)
next
  assume "nTx + 4 < 2 ^ 64"
  thus "num_threads 0 hw nTx = min (if hw = 0 then 2 else hw) (nat \<lceil>real nTx / 5\<rceil>)"
    by (simp add: num_threads_def size_t_mod_def ceil_div5 [symmetric] add.commute)
next
  show "nat \<lceil>real (23::nat) / 5\<rceil> = 5"
    by (simp add: ceil_div5 [symmetric])
  show "num_threads 0 8 23 \<le> nat \<lceil>real (23::nat) / 5\<rceil>"
    by (simp add: num_threads_def size_t_mod_def ceil_div5 [symmetric])
  show "num_threads 0 8 23 \<le> 8"
    by (simp add: num_threads_def size_t_mod_def)
qed

theorem num_threads_policy_witness:
  "num_threads 4 8 23 = 4 \<and> num_threads 0 0 23 = 2 \<and> num_threads 0 8 23 = 5 \<and>
   num_threads 30 8 23 = 23"
  using num_threads_policy [of 4 8 23] num_threads_policy [of 30 0 23]
    num_threads_policy [of 30 8 23]
  by (simp add: ceil_div5 [symmetric])

text \<open>
  The block size is \<open>ceil (nTx / num_threads)\<close>. With more than one thread the loop
  starts \<open>num_threads - 1\<close> workers, worker \<open>k\<close> (thread number \<open>k + 1\<close>) on the block
  from \<open>k * blk_size\<close> to \<open>(k + 1) * blk_size\<close>, and the main thread runs from
  \<open>(num_threads - 1) * blk_size\<close> to \<open>nTx\<close>. The blocks are \<open>[0, nTx)\<close>, each index
  once, when \<open>(num_threads - 1) * blk_size \<le> nTx\<close>; otherwise the last worker reads
  outside the sources.
\<close>

lemma blk_size_ceiling:
  assumes p: "0 < nthr"
  shows "blk_size nTx nthr = Inr (nat \<lceil>real nTx / real nthr\<rceil>)"
proof -
  have m: "int nTx mod int nthr = 0 \<longleftrightarrow> nTx mod nthr = 0"
    by (simp flip: of_nat_mod)
  have "real nTx / real nthr = of_int (int nTx) / of_int (int nthr)" by simp
  hence "\<lceil>real nTx / real nthr\<rceil> = - (- int nTx div int nthr)"
    by (simp only: ceiling_divide_eq_div)
  also have "\<dots> = (if int nTx mod int nthr = 0 then 0 else 1) + int nTx div int nthr"
    using p by (simp add: zdiv_zminus1_eq_if)
  also have "\<dots> = int ((if nTx mod nthr \<noteq> 0 then 1 else 0) + nTx div nthr)"
    unfolding m by (simp add: zdiv_int)
  finally have "nat \<lceil>real nTx / real nthr\<rceil> = (if nTx mod nthr \<noteq> 0 then 1 else 0) + nTx div nthr"
    by (simp only: nat_int)
  with p show ?thesis by (simp only: blk_size_def) simp
qed

lemma run_block_eq:
  "run_block nTx n blk_end =
     (if blk_end \<le> nTx \<or> blk_end \<le> n then Inr [n..<blk_end] else Inl IndexOutOfRange)"
proof (induction nTx n blk_end rule: run_block.induct)
  case (1 nTx n blk_end)
  show ?case
  proof (cases "n < blk_end \<and> n < nTx")
    case True
    with "1.IH" show ?thesis
      by (subst run_block.simps) (auto simp: upt_conv_Cons)
  next
    case False
    thus ?thesis by (subst run_block.simps) auto
  qed
qed

lemma spawn_workers_blocks:
  "blk_start = i * bsz \<Longrightarrow> i \<le> nthr - 1 \<Longrightarrow> (nthr - 1) * bsz < 2 ^ 64 \<Longrightarrow>
   spawn_workers i nthr bsz blk_start =
     (map (\<lambda>k. (k + 1, k * bsz, (k + 1) * bsz)) [i..<nthr - 1], (nthr - 1) * bsz)"
proof (induction i nthr bsz blk_start rule: spawn_workers.induct)
  case (1 i nthr bsz blk_start)
  show ?case
  proof (cases "i < nthr - 1")
    case False
    with "1.prems" have "i = nthr - 1" by simp
    with "1.prems" show ?thesis by (subst spawn_workers.simps) simp
  next
    case True
    hence "(i + 1) * bsz \<le> (nthr - 1) * bsz" by (intro mult_le_mono1) simp
    with "1.prems" have e: "size_t_mod (blk_start + bsz) = (i + 1) * bsz"
      by (simp add: size_t_mod_def)
    have "spawn_workers (i + 1) nthr bsz ((i + 1) * bsz) =
        (map (\<lambda>k. (k + 1, k * bsz, (k + 1) * bsz)) [i + 1..<nthr - 1], (nthr - 1) * bsz)"
      using True "1.prems" e by (intro "1.IH" [OF True, of "(i + 1) * bsz"]) auto
    with True e "1.prems" show ?thesis
      by (subst spawn_workers.simps) (simp add: upt_conv_Cons)
  qed
qed

lemma concat_blocks: "concat (map (\<lambda>k. [k * bsz..<(k + 1) * bsz]) [0..<m]) = [0..<m * bsz]"
proof (induction m)
  case 0
  show ?case by simp
next
  case (Suc m)
  have "[0..<m * bsz] @ [m * bsz..<(m + 1) * bsz] = [0..<(m + 1) * bsz]"
    by (metis add.commute le_add1 mult_Suc upt_add_eq_append zero_le Suc_eq_plus1)
  with Suc show ?case by simp
qed

lemma dispatch_blocks:
  assumes "1 < nthr" and "blk_size nTx nthr = Inr bsz" and "(nthr - 1) * bsz < 2 ^ 64"
  shows "dispatch nTx nthr =
           Inr (map (\<lambda>k. (k + 1, run_block nTx (k * bsz) ((k + 1) * bsz))) [0..<nthr - 1] @
                [(0, run_block nTx ((nthr - 1) * bsz) nTx)])"
  using assms by (simp add: dispatch_def spawn_workers_blocks [of 0 0 bsz nthr] comp_def)

lemma dispatch_single: "dispatch nTx 1 = Inr [(0, Inr [0..<nTx])]"
  by (simp add: dispatch_def blk_size_def run_block_eq)

lemma dispatch_exact_cover:
  assumes "1 < nthr" and "blk_size nTx nthr = Inr bsz" and "(nthr - 1) * bsz \<le> nTx"
    and "nTx < 2 ^ 64"
  shows "dispatch nTx nthr =
           Inr (map (\<lambda>k. (k + 1, Inr [k * bsz..<(k + 1) * bsz])) [0..<nthr - 1] @
                [(0, Inr [(nthr - 1) * bsz..<nTx])])"
    and "concat (map (\<lambda>k. [k * bsz..<(k + 1) * bsz]) [0..<nthr - 1]) @ [(nthr - 1) * bsz..<nTx]
           = [0..<nTx]"
proof -
  have le: "(k + 1) * bsz \<le> nTx" if "k < nthr - 1" for k
  proof -
    have "(k + 1) * bsz \<le> (nthr - 1) * bsz" using that by (intro mult_le_mono1) simp
    with assms(3) show ?thesis by simp
  qed
  have "map (\<lambda>k. (k + 1, run_block nTx (k * bsz) ((k + 1) * bsz))) [0..<nthr - 1] =
        map (\<lambda>k. (k + 1, Inr [k * bsz..<(k + 1) * bsz])) [0..<nthr - 1]"
    using le by (intro map_cong refl) (simp add: run_block_eq)
  moreover have "run_block nTx ((nthr - 1) * bsz) nTx = Inr [(nthr - 1) * bsz..<nTx]"
    by (simp add: run_block_eq)
  ultimately show "dispatch nTx nthr =
           Inr (map (\<lambda>k. (k + 1, Inr [k * bsz..<(k + 1) * bsz])) [0..<nthr - 1] @
                [(0, Inr [(nthr - 1) * bsz..<nTx])])"
    using assms by (simp add: dispatch_blocks)
  show "concat (map (\<lambda>k. [k * bsz..<(k + 1) * bsz]) [0..<nthr - 1]) @ [(nthr - 1) * bsz..<nTx]
           = [0..<nTx]"
    unfolding concat_blocks using assms(3)
    by (metis le0 le_Suc_ex upt_add_eq_append)
qed

lemma dispatch_overrun:
  assumes "1 < nthr" and "blk_size nTx nthr = Inr bsz" and "nTx < (nthr - 1) * bsz"
    and "(nthr - 1) * bsz < 2 ^ 64"
  shows "\<exists>ths. dispatch nTx nthr = Inr ths \<and> (nthr - 1, Inl IndexOutOfRange) \<in> set ths"
proof -
  have "nthr - 2 < nthr - 1" using assms(1) by simp
  hence "nthr - 2 \<in> set [0..<nthr - 1]" by simp
  moreover have "(nthr - 2 + 1) = nthr - 1" using assms(1) by simp
  moreover have "0 < bsz" using assms(3) by (cases bsz) auto
  hence "run_block nTx ((nthr - 2) * bsz) ((nthr - 1) * bsz) = Inl IndexOutOfRange"
    using assms(1,3) by (simp add: run_block_eq not_le)
  ultimately have "(nthr - 1, Inl IndexOutOfRange) \<in>
      (\<lambda>k. (k + 1, run_block nTx (k * bsz) ((k + 1) * bsz))) ` set [0..<nthr - 1]"
    by (metis (mono_tags, lifting) image_eqI)
  thus ?thesis using assms by (simp add: dispatch_blocks)
qed

text \<open>
  Claim C1. The claim says that no block extends past \<open>nSources\<close> and that the blocks
  cover \<open>[0, nSources)\<close> exactly once. With 5 sources and an explicit thread count of 4
  the block size is 2, the three workers get \<open>[0, 2)\<close>, \<open>[2, 4)\<close> and \<open>[4, 6)\<close>, and the
  third worker reads \<^verbatim>\<open>src[5]\<close>, outside the five sources; the block left to the main
  thread, from 6 to 5, is empty. The same happens without an explicit thread count:
  with 41 sources and a hardware concurrency of 8 there are 8 threads and a block size
  of 6, and the seventh worker, on \<open>[36, 42)\<close>, reads \<^verbatim>\<open>src[41]\<close>.
\<close>

theorem partition_overruns:
  "num_threads 4 hw 5 = 4 \<and> blk_size 5 4 = Inr 2 \<and>
   spawn_workers 0 4 2 0 = ([(1, 0, 2), (2, 2, 4), (3, 4, 6)], 6) \<and>
   dispatch 5 4 = Inr [(1, Inr [0, 1]), (2, Inr [2, 3]), (3, Inl IndexOutOfRange), (0, Inr [])] \<and>
   num_threads 0 8 41 = 8 \<and> blk_size 41 8 = Inr 6 \<and>
   (\<exists>ths. dispatch 41 8 = Inr ths \<and> (7, Inl IndexOutOfRange) \<in> set ths)"
proof -
  have a: "num_threads 4 hw 5 = 4 \<and> blk_size 5 4 = Inr 2 \<and>
      spawn_workers 0 4 2 0 = ([(1, 0, 2), (2, 2, 4), (3, 4, 6)], 6) \<and>
      dispatch 5 4 =
        Inr [(1, Inr [0, 1]), (2, Inr [2, 3]), (3, Inl IndexOutOfRange), (0, Inr [])]"
    by (simp add: num_threads_def blk_size_def dispatch_def size_t_mod_def spawn_workers.simps
        run_block.simps)
  have b: "num_threads 0 8 41 = 8 \<and> blk_size 41 8 = Inr 6"
    by (simp add: num_threads_def blk_size_def size_t_mod_def)
  have "\<exists>ths. dispatch 41 8 = Inr ths \<and> (7, Inl IndexOutOfRange) \<in> set ths"
    using dispatch_overrun [of 8 41 6] b by simp
  with a b show ?thesis by simp
qed

section \<open>Bounds validation: results\<close>

lemma check_pts_loop_step:
  "check_pts_loop g pts n =
     (if n < length pts then
        (if within_bounds g (pts ! n) then check_pts_loop g pts (n + 1) else (1, Some (n + 1)))
      else (0, None))"
  by (subst check_pts_loop.simps) (auto simp: within_bounds_def)

lemma check_pts_loop_ok:
  "check_pts_loop g pts n = (0, None) \<longleftrightarrow>
     (\<forall>j. n \<le> j \<and> j < length pts \<longrightarrow> within_bounds g (pts ! j))"
proof (induction g pts n rule: check_pts_loop.induct)
  case (1 g pts n)
  show ?case
  proof (cases "n < length pts")
    case False
    thus ?thesis by (subst check_pts_loop_step) auto
  next
    case True
    show ?thesis
    proof (cases "within_bounds g (pts ! n)")
      case False
      with True show ?thesis
        by (subst check_pts_loop_step) auto
    next
      case inb: True
      hence "check_pts_loop g pts (n + 1) = (0, None) \<longleftrightarrow>
          (\<forall>j. n + 1 \<le> j \<and> j < length pts \<longrightarrow> within_bounds g (pts ! j))"
        using True "1.IH" by (simp add: within_bounds_def not_less)
      moreover have "(\<forall>j. n + 1 \<le> j \<and> j < length pts \<longrightarrow> within_bounds g (pts ! j)) \<longleftrightarrow>
          (\<forall>j. n \<le> j \<and> j < length pts \<longrightarrow> within_bounds g (pts ! j))"
        using inb by (metis Suc_eq_plus1 Suc_leI le_neq_implies_less Suc_leD)
      ultimately show ?thesis using True inb
        by (subst check_pts_loop_step) simp
    qed
  qed
qed

lemma check_pts_loop_err:
  "check_pts_loop g pts n = (1, Some k) \<longleftrightarrow>
     (n < k \<and> k \<le> length pts \<and> \<not> within_bounds g (pts ! (k - 1)) \<and>
      (\<forall>j. n \<le> j \<and> j < k - 1 \<longrightarrow> within_bounds g (pts ! j)))"
proof (induction g pts n rule: check_pts_loop.induct)
  case (1 g pts n)
  show ?case
  proof (cases "n < length pts")
    case False
    thus ?thesis by (subst check_pts_loop_step) auto
  next
    case True
    show ?thesis
    proof (cases "within_bounds g (pts ! n)")
      case False
      have "(n < k \<and> k \<le> length pts \<and> \<not> within_bounds g (pts ! (k - 1)) \<and>
          (\<forall>j. n \<le> j \<and> j < k - 1 \<longrightarrow> within_bounds g (pts ! j))) \<longleftrightarrow> k = n + 1"
      proof
        assume a: "n < k \<and> k \<le> length pts \<and> \<not> within_bounds g (pts ! (k - 1)) \<and>
          (\<forall>j. n \<le> j \<and> j < k - 1 \<longrightarrow> within_bounds g (pts ! j))"
        show "k = n + 1"
        proof (rule ccontr)
          assume "k \<noteq> n + 1"
          with a have "n < k - 1" by arith
          with a have "within_bounds g (pts ! n)" by blast
          with False show False by simp
        qed
      next
        assume "k = n + 1"
        with True False show "n < k \<and> k \<le> length pts \<and> \<not> within_bounds g (pts ! (k - 1)) \<and>
          (\<forall>j. n \<le> j \<and> j < k - 1 \<longrightarrow> within_bounds g (pts ! j))" by auto
      qed
      with True False show ?thesis
        by (subst check_pts_loop_step) auto
    next
      case inb: True
      hence ih: "check_pts_loop g pts (n + 1) = (1, Some k) \<longleftrightarrow>
          (n + 1 < k \<and> k \<le> length pts \<and> \<not> within_bounds g (pts ! (k - 1)) \<and>
           (\<forall>j. n + 1 \<le> j \<and> j < k - 1 \<longrightarrow> within_bounds g (pts ! j)))"
        using True "1.IH" by (simp add: within_bounds_def not_less)
      have "(n + 1 < k \<and> k \<le> length pts \<and> \<not> within_bounds g (pts ! (k - 1)) \<and>
           (\<forall>j. n + 1 \<le> j \<and> j < k - 1 \<longrightarrow> within_bounds g (pts ! j))) \<longleftrightarrow>
         (n < k \<and> k \<le> length pts \<and> \<not> within_bounds g (pts ! (k - 1)) \<and>
           (\<forall>j. n \<le> j \<and> j < k - 1 \<longrightarrow> within_bounds g (pts ! j)))" (is "?L \<longleftrightarrow> ?R")
      proof
        assume l: ?L
        have "\<And>j. n \<le> j \<and> j < k - 1 \<Longrightarrow> within_bounds g (pts ! j)"
        proof -
          fix j assume "n \<le> j \<and> j < k - 1"
          thus "within_bounds g (pts ! j)" using l inb by (cases "j = n") auto
        qed
        with l show ?R by auto
      next
        assume r: ?R
        have "k \<noteq> n + 1" using r inb by auto
        with r show ?L by auto
      qed
      with ih True inb show ?thesis
        by (subst check_pts_loop_step) simp
    qed
  qed
qed

lemma check_pts_loop_cases:
  "check_pts_loop g pts n = (0, None) \<or> (\<exists>k. check_pts_loop g pts n = (1, Some k))"
proof (induction g pts n rule: check_pts_loop.induct)
  case (1 g pts n)
  thus ?case 
    by (subst (1 2) check_pts_loop.simps) (auto simp: within_bounds_def)
qed

text \<open>
  Claim C4. \<^const>\<open>check_pts\<close> returns 1 and reports the number \<open>k\<close> exactly when \<open>k\<close>
  is the 1-based position of the first point with a coordinate outside the closed
  interval of its axis; it returns 1 exactly when some point of the list is outside,
  and 0, without a report, exactly when every point is inside. These are the only
  results, and the empty list gives 0. Being inside is the negation of the test of the
  source (\<^verbatim>\<open>x < xmin || x > xmax || ...\<close>).
\<close>

theorem check_pts_first_offender:
  "(check_pts g pts = (1, Some k) \<longleftrightarrow>
      (0 < k \<and> k \<le> length pts \<and> \<not> within_bounds g (pts ! (k - 1)) \<and>
       (\<forall>j < k - 1. within_bounds g (pts ! j)))) \<and>
   ((\<exists>k. check_pts g pts = (1, Some k)) \<longleftrightarrow> (\<exists>p \<in> set pts. \<not> within_bounds g p)) \<and>
   (check_pts g pts = (0, None) \<longleftrightarrow> (\<forall>p \<in> set pts. within_bounds g p)) \<and>
   (check_pts g pts = (0, None) \<or> (\<exists>k. check_pts g pts = (1, Some k))) \<and>
   check_pts g [] = (0, None) \<and>
   (within_bounds g p \<longleftrightarrow>
      \<not> (x p < xmin g \<or> x p > xmax g \<or> y p < ymin g \<or> y p > ymax g \<or>
         z p < zmin g \<or> z p > zmax g))"
proof -
  have ok: "check_pts g pts = (0, None) \<longleftrightarrow> (\<forall>p \<in> set pts. within_bounds g p)"
    unfolding check_pts_def check_pts_loop_ok
    by (metis in_set_conv_nth le0)
  have cases: "check_pts g pts = (0, None) \<or> (\<exists>k. check_pts g pts = (1, Some k))"
    unfolding check_pts_def by (rule check_pts_loop_cases)
  have err: "(\<exists>k. check_pts g pts = (1, Some k)) \<longleftrightarrow> (\<exists>p \<in> set pts. \<not> within_bounds g p)"
    using ok cases by auto
  have first: "check_pts g pts = (1, Some k) \<longleftrightarrow>
      (0 < k \<and> k \<le> length pts \<and> \<not> within_bounds g (pts ! (k - 1)) \<and>
       (\<forall>j < k - 1. within_bounds g (pts ! j)))"
    unfolding check_pts_def check_pts_loop_err by simp
  have nil: "check_pts g [] = (0, None)"
    by (simp add: check_pts_def check_pts_loop.simps)
  have wb: "within_bounds g p \<longleftrightarrow>
      \<not> (x p < xmin g \<or> x p > xmax g \<or> y p < ymin g \<or> y p > ymax g \<or>
         z p < zmin g \<or> z p > zmax g)"
    by (auto simp: within_bounds_def)
  from first err ok cases nil wb show ?thesis by blast
qed

theorem check_pts_first_offender_witness:
  "check_pts (Grid3Dr 2 2 2 1 1 1 0 0 0 1 1 1 1)
     [\<lparr>x = 1, y = 1, z = 1\<rparr>, \<lparr>x = 3, y = 1, z = 1\<rparr>, \<lparr>x = 1, y = - 1, z = 1\<rparr>] = (1, Some 2) \<and>
   check_pts (Grid3Dr 2 2 2 1 1 1 0 0 0 1 1 1 1)
     [\<lparr>x = 0, y = 2, z = 1\<rparr>, \<lparr>x = 2, y = 0, z = 2\<rparr>] = (0, None)"
  using check_pts_first_offender [of "Grid3Dr 2 2 2 1 1 1 0 0 0 1 1 1 1"
      "[\<lparr>x = 1, y = 1, z = 1\<rparr>, \<lparr>x = 3, y = 1, z = 1\<rparr>, \<lparr>x = 1, y = - 1, z = 1\<rparr>]" 2]
    check_pts_first_offender [of "Grid3Dr 2 2 2 1 1 1 0 0 0 1 1 1 1"
      "[\<lparr>x = 0, y = 2, z = 1\<rparr>, \<lparr>x = 2, y = 0, z = 2\<rparr>]"]
  by (simp add: within_bounds_def Grid3Dr_def)

section \<open>Machine arithmetic: results\<close>

text \<open>
  The rounding is the one of the machine: the exponent found by \<^const>\<open>ilog2\<close> is the
  binary exponent, the rounded value is a multiple of the unit in the last place at
  most half a unit away from the exact one, and a number of the format is left as it is.
\<close>

lemmas fp_eval = round_float_def round_double_def round_fp_def ilog2_def pow2_def
  round_half_even_def bits.simps Let_def

lemma pow2_pos: "0 < pow2 k"
  by (simp add: pow2_def)

lemma pow2_powr: "pow2 k = 2 powr (of_int k)"
proof (cases "0 \<le> k")
  case True
  hence "2 powr (of_int k) = (2::real) powr (real (nat k))" by simp
  also have "\<dots> = 2 ^ nat k" by (simp only: powr_realpow zero_less_numeral)
  finally show ?thesis using True by (simp add: pow2_def)
next
  case False
  hence "2 powr (of_int k) = (2::real) powr (- real (nat (- k)))" by simp
  also have "\<dots> = 1 / 2 powr (real (nat (- k)))" by (simp only: powr_minus_divide)
  also have "\<dots> = 1 / 2 ^ nat (- k)" by (simp only: powr_realpow zero_less_numeral)
  finally show ?thesis using False by (simp add: pow2_def)
qed

lemma pow2_add: "pow2 (a + b) = pow2 a * pow2 b"
  by (simp add: pow2_powr powr_add)

lemma pow2_less_iff: "pow2 a < pow2 b \<longleftrightarrow> a < b"
  by (simp add: pow2_powr)

lemma pow2_nat: "0 \<le> k \<Longrightarrow> pow2 k = of_int (2 ^ nat k)"
  by (simp add: pow2_def)

lemma bits_bounds: "0 < n \<Longrightarrow> 2 ^ (bits n - 1) \<le> n \<and> n < 2 ^ bits n"
proof (induction n rule: bits.induct)
  case (1 n)
  show ?case
  proof (cases "n div 2 = 0")
    case True
    with "1.prems" have "n = 1" by (simp add: div_eq_0_iff) 
    thus ?thesis by (simp add: bits.simps)
  next
    case False
    hence pos: "0 < n div 2" by simp
    with "1.prems" "1.IH" have ih: "2 ^ (bits (n div 2) - 1) \<le> n div 2" "n div 2 < 2 ^ bits (n div 2)"
      by simp_all
    have b: "bits n = 1 + bits (n div 2)" using "1.prems" by (subst bits.simps) simp
    have bp: "0 < bits (n div 2)" using pos by (subst bits.simps) simp
    hence "(2::nat) ^ (bits n - 1) = 2 * 2 ^ (bits (n div 2) - 1)"
      unfolding b by (cases "bits (n div 2)") simp_all
    with ih(1) have lo: "2 ^ (bits n - 1) \<le> n" by simp
    have "n < 2 * 2 ^ bits (n div 2)" using ih(2) by linarith
    with lo show ?thesis unfolding b by simp
  qed
qed

lemma two_le_ceiling: "(1::real) < w \<Longrightarrow> 2 \<le> \<lceil>w\<rceil>"
proof -
  assume "1 < w"
  hence "of_int 1 < w" by simp
  hence "1 < \<lceil>w\<rceil>" by (subst less_ceiling_iff)
  thus ?thesis by simp
qed

lemma ilog2_bounds_ge1:
  assumes "1 \<le> v"
  shows "pow2 (ilog2 v) \<le> v \<and> v < pow2 (ilog2 v + 1)"
proof -
  define n where "n = nat \<lfloor>v\<rfloor>"
  have n0: "0 < n" using assms by (simp add: n_def)
  have "real n = of_int \<lfloor>v\<rfloor>" using assms by (simp add: n_def)
  hence n: "real n \<le> v" "v < real n + 1" by linarith+
  from bits_bounds [OF n0] have b: "2 ^ (bits n - 1) \<le> n" "n + 1 \<le> 2 ^ bits n" by simp_all
  have bp: "0 < bits n" using n0 by (subst bits.simps) simp
  have "(2::real) ^ (bits n - 1) \<le> real n"
    using b(1) by simp
  hence lo: "2 ^ (bits n - 1) \<le> v" using n(1) by linarith
  have "real (n + 1) \<le> (2::real) ^ bits n"
    using b(2) by (simp only: of_nat_le_numeral_power_cancel_iff)
  hence hi: "v < 2 ^ bits n" using n(2) by simp
  have e: "ilog2 v = int (bits n) - 1" using assms by (simp add: ilog2_def n_def)
  have "pow2 (int (bits n) - 1) = 2 ^ (bits n - 1)"
    using bp by (simp add: pow2_def nat_diff_distrib')
  moreover have "pow2 (int (bits n) - 1 + 1) = 2 ^ bits n"
    by (simp add: pow2_def)
  ultimately show ?thesis using lo hi unfolding e by simp
qed

lemma ilog2_bounds_lt1:
  assumes "0 < v" and "v < 1"
  shows "pow2 (ilog2 v) \<le> v \<and> v < pow2 (ilog2 v + 1)"
proof -
  define c where "c = \<lceil>1 / v\<rceil>"
  define m where "m = nat (c - 1)"
  have w: "1 < 1 / v" using assms by simp
  hence c2: "2 \<le> c" unfolding c_def by (rule two_le_ceiling)
  hence m0: "0 < m" and mc: "int m = c - 1" by (simp_all add: m_def)
  from bits_bounds [OF m0] have b: "2 ^ (bits m - 1) \<le> m" "m + 1 \<le> 2 ^ bits m" by simp_all
  have bp: "0 < bits m" using m0 by (subst bits.simps) simp
  have "c = int (m + 1)" using mc by simp
  hence cm: "real_of_int c = real (m + 1)" by (simp only: of_int_of_nat_eq)
  have "1 / v \<le> of_int c" unfolding c_def by (rule le_of_int_ceiling)
  also have "\<dots> \<le> (2::real) ^ bits m"
    unfolding cm using b(2) by (simp only: of_nat_le_numeral_power_cancel_iff)
  finally have hi: "1 / v \<le> 2 ^ bits m" .
  have "(2::real) ^ (bits m - 1) \<le> real m"
    using b(1) by simp
  also have "real m = of_int c - 1" using cm by simp
  also have "\<dots> < 1 / v" unfolding c_def by linarith
  finally have lo: "2 ^ (bits m - 1) < 1 / v" .
  have e: "ilog2 v = - int (bits m)" using assms by (simp add: ilog2_def m_def c_def)
  have p1: "(0::real) < 2 ^ bits m" "(0::real) < 2 ^ (bits m - 1)" by simp_all
  have "1 / 2 ^ bits m \<le> v"
    using hi assms(1) p1(1) by (simp add: field_simps)
  moreover have "v < 1 / 2 ^ (bits m - 1)"
    using lo assms(1) p1(2) by (simp add: field_simps)
  moreover have "pow2 (- int (bits m)) = 1 / 2 ^ bits m" using bp by (simp add: pow2_def)
  moreover have "pow2 (- int (bits m) + 1) = 1 / 2 ^ (bits m - 1)"
  proof (cases "bits m = 1")
    case True
    thus ?thesis by (simp add: pow2_def)
  next
    case False
    with bp have "1 < bits m" by simp
    hence "nat (int (bits m) - 1) = bits m - 1" "\<not> 0 \<le> - int (bits m) + 1"
      by (simp_all add: nat_diff_distrib')
    thus ?thesis by (simp add: pow2_def)
  qed
  ultimately show ?thesis unfolding e by simp
qed

lemma ilog2_bounds: "0 < v \<Longrightarrow> pow2 (ilog2 v) \<le> v \<and> v < pow2 (ilog2 v + 1)"
  using ilog2_bounds_ge1 [of v] ilog2_bounds_lt1 [of v] by (cases "1 \<le> v") simp_all

lemma round_half_even_error: "\<bar>of_int (round_half_even t) - t\<bar> \<le> 1 / 2"
proof -
  have "of_int \<lfloor>t\<rfloor> \<le> t" "t < of_int \<lfloor>t\<rfloor> + 1" by linarith+
  thus ?thesis by (auto simp: round_half_even_def Let_def abs_le_iff)
qed

lemma round_half_even_of_int: "round_half_even (of_int k) = k"
  by (simp add: round_half_even_def)

lemma round_half_even_ge: "of_int a \<le> t \<Longrightarrow> a \<le> round_half_even t"
proof -
  assume "of_int a \<le> t"
  hence "a \<le> \<lfloor>t\<rfloor>" by (simp add: le_floor_iff)
  thus ?thesis by (simp add: round_half_even_def Let_def)
qed

lemma round_half_even_le: "t \<le> of_int b \<Longrightarrow> round_half_even t \<le> b"
proof -
  assume le: "t \<le> of_int b"
  hence f: "\<lfloor>t\<rfloor> \<le> b" by (meson floor_le_iff le_less_trans less_add_one of_int_floor_le order.strict_implies_order floor_mono floor_of_int order_trans)
  show ?thesis
  proof (cases "t - of_int \<lfloor>t\<rfloor> < 1 / 2")
    case True
    with f show ?thesis by (simp add: round_half_even_def Let_def)
  next
    case False
    hence "of_int \<lfloor>t\<rfloor> < t" by simp
    with le have "of_int \<lfloor>t\<rfloor> < (of_int b :: real)" by simp
    hence "\<lfloor>t\<rfloor> < b" by simp
    thus ?thesis by (simp add: round_half_even_def Let_def)
  qed
qed

lemma round_fp_nearest:
  assumes "round_fp p qmin emax v = Some r" and "v \<noteq> 0"
  shows "\<exists>k. r = of_int k * pow2 (max (ilog2 \<bar>v\<bar> - int p + 1) qmin) \<and>
             \<bar>r - v\<bar> \<le> pow2 (max (ilog2 \<bar>v\<bar> - int p + 1) qmin) / 2"
proof -
  define q where "q = max (ilog2 \<bar>v\<bar> - int p + 1) qmin"
  define k where "k = round_half_even (v / pow2 q)"
  have pq: "0 < pow2 q" by (rule pow2_pos)
  from assms have r: "r = of_int k * pow2 q"
    by (simp add: round_fp_def Let_def q_def k_def split: if_splits)
  have "\<bar>of_int k - v / pow2 q\<bar> \<le> 1 / 2" unfolding k_def by (rule round_half_even_error)
  hence "\<bar>of_int k - v / pow2 q\<bar> * pow2 q \<le> 1 / 2 * pow2 q"
    using pq by (intro mult_right_mono) simp_all
  moreover have "\<bar>of_int k - v / pow2 q\<bar> * pow2 q = \<bar>(of_int k - v / pow2 q) * pow2 q\<bar>"
    using pq by (simp add: abs_mult)
  moreover have "(of_int k - v / pow2 q) * pow2 q = of_int k * pow2 q - v"
    using pq by (simp add: left_diff_distrib)
  ultimately have "\<bar>r - v\<bar> \<le> pow2 q / 2" unfolding r by simp
  with r show ?thesis unfolding q_def by blast
qed

lemma round_fp_exact:
  assumes m: "\<bar>m\<bar> < 2 ^ p" and e: "qmin \<le> e" and rng: "\<bar>of_int m * pow2 e\<bar> < pow2 (emax + 1)"
  shows "round_fp p qmin emax (of_int m * pow2 e) = Some (of_int m * pow2 e)"
proof (cases "m = 0")
  case True
  thus ?thesis by (simp add: round_fp_def)
next
  case False
  define v where "v = of_int m * pow2 e"
  define q where "q = max (ilog2 \<bar>v\<bar> - int p + 1) qmin"
  have pe: "0 < pow2 e" by (rule pow2_pos)
  have v0: "v \<noteq> 0" using False pe by (simp add: v_def)
  hence vp: "0 < \<bar>v\<bar>" by simp
  have "\<bar>of_int m :: real\<bar> < 2 ^ p" using m by (metis of_int_abs of_int_less_numeral_power_cancel_iff)
  hence "\<bar>v\<bar> < 2 ^ p * pow2 e" using pe by (simp add: v_def abs_mult)
  also have "\<dots> = pow2 (int p + e)"
  proof -
    have "pow2 (int p) = 2 ^ p" by (simp add: pow2_def)
    thus ?thesis by (simp add: pow2_add)
  qed
  finally have "pow2 (ilog2 \<bar>v\<bar>) < pow2 (int p + e)"
    using ilog2_bounds [OF vp] by linarith
  hence "ilog2 \<bar>v\<bar> < int p + e" by (simp only: pow2_less_iff)
  hence qe: "q \<le> e" using e by (simp add: q_def)
  define d where "d = e - q"
  have d0: "0 \<le> d" using qe by (simp add: d_def)
  have "pow2 e = pow2 d * pow2 q" by (simp add: d_def pow2_add [symmetric])
  hence "v / pow2 q = of_int m * pow2 d"
    using pow2_pos [of q] by (simp add: v_def)
  also have "\<dots> = of_int (m * 2 ^ nat d)" using d0 by (simp add: pow2_nat)
  finally have k: "v / pow2 q = of_int (m * 2 ^ nat d)" .
  have "of_int (round_half_even (v / pow2 q)) * pow2 q = v"
    unfolding k round_half_even_of_int using k pow2_pos [of q] by (simp add: field_simps)
  thus ?thesis using v0 rng unfolding v_def [symmetric] 
    by (simp add: round_fp_def Let_def q_def [symmetric])
qed

lemma round_fp_between:
  assumes v: "v \<noteq> 0" and q: "q = max (ilog2 \<bar>v\<bar> - int p + 1) qmin"
    and lo: "of_int a * pow2 q \<le> v" and hi: "v \<le> of_int b * pow2 q"
    and rng: "max \<bar>of_int a\<bar> \<bar>of_int b\<bar> * pow2 q < pow2 (emax + 1)"
  shows "\<exists>r. round_fp p qmin emax v = Some r \<and> of_int a * pow2 q \<le> r \<and> r \<le> of_int b * pow2 q"
proof -
  define k where "k = round_half_even (v / pow2 q)"
  have pq: "0 < pow2 q" by (rule pow2_pos)
  have "of_int a \<le> v / pow2 q" using lo pq by (simp add: pos_le_divide_eq)
  hence ak: "a \<le> k" unfolding k_def by (rule round_half_even_ge)
  have "v / pow2 q \<le> of_int b" using hi pq by (simp add: pos_divide_le_eq)
  hence kb: "k \<le> b" unfolding k_def by (rule round_half_even_le)
  have lo': "of_int a * pow2 q \<le> of_int k * pow2 q"
    using ak pq by simp
  have hi': "of_int k * pow2 q \<le> of_int b * pow2 q"
    using kb pq by simp
  have "\<bar>of_int k :: real\<bar> \<le> max \<bar>of_int a\<bar> \<bar>of_int b\<bar>"
    using ak kb by (simp add: abs_le_iff max_def) linarith
  hence "\<bar>of_int k * pow2 q\<bar> \<le> max \<bar>of_int a\<bar> \<bar>of_int b\<bar> * pow2 q"
    using pq by (simp add: abs_mult mult_right_mono)
  with rng have "\<bar>of_int k * pow2 q\<bar> < pow2 (emax + 1)" by simp
  hence "round_fp p qmin emax v = Some (of_int k * pow2 q)"
    using v q by (simp add: round_fp_def Let_def k_def)
  with lo' hi' show ?thesis by simp
qed

lemma round_fp_small:
  assumes v: "0 < v" "v < 1 / 4" and qm: "qmin \<le> - 2" and em: "0 \<le> emax"
  shows "\<exists>r. round_fp p qmin emax v = Some r \<and> 0 \<le> r \<and> r \<le> 1 / 4"
proof -
  define q where "q = max (ilog2 \<bar>v\<bar> - int p + 1) qmin"
  have av: "\<bar>v\<bar> = v" using v by simp
  have p2: "pow2 (- 2) = 1 / 4" by (simp add: pow2_def)
  have "pow2 (ilog2 v) < pow2 (- 2)" using ilog2_bounds [OF v(1)] v(2) unfolding p2 by linarith
  hence "ilog2 v < - 2" by (simp only: pow2_less_iff)
  hence q2: "q \<le> - 2" using qm by (simp add: q_def av)
  define b :: int where "b = 2 ^ nat (- 2 - q)"
  have "of_int b = pow2 (- 2 - q)" using q2 by (simp add: b_def pow2_nat)
  hence "of_int b * pow2 q = pow2 (- 2 - q + q)" by (simp only: pow2_add)
  hence bq: "of_int b * pow2 q = 1 / 4" by (simp add: p2)
  have b0: "0 \<le> b" by (simp add: b_def)
  have "pow2 0 < pow2 (emax + 1)" using em by (simp only: pow2_less_iff)
  hence e1: "1 < pow2 (emax + 1)" by (simp add: pow2_def)
  have "\<exists>r. round_fp p qmin emax v = Some r \<and> of_int 0 * pow2 q \<le> r \<and> r \<le> of_int b * pow2 q"
  proof (rule round_fp_between)
    show "v \<noteq> 0" using v by simp
    show "q = max (ilog2 \<bar>v\<bar> - int p + 1) qmin" by (rule q_def)
    show "of_int 0 * pow2 q \<le> v" using v by simp
    show "v \<le> of_int b * pow2 q" using v bq by simp
    have "max \<bar>of_int 0\<bar> \<bar>of_int b :: real\<bar> = of_int b" using b0 by simp
    thus "max \<bar>of_int 0\<bar> \<bar>of_int b\<bar> * pow2 q < pow2 (emax + 1)" using bq e1 by simp
  qed
  thus ?thesis using bq by simp
qed

lemma round_near_0:
  assumes "0 < small" and "small < 1 / 4"
  shows "\<exists>r. round_double small = Some r \<and> 0 \<le> r \<and> r \<le> 1 / 4"
    and "\<exists>r. round_float small = Some r \<and> 0 \<le> r \<and> r \<le> 1 / 4"
proof -
  show "\<exists>r. round_double small = Some r \<and> 0 \<le> r \<and> r \<le> 1 / 4"
    unfolding round_double_def using assms by (intro round_fp_small) simp_all
  show "\<exists>r. round_float small = Some r \<and> 0 \<le> r \<and> r \<le> 1 / 4"
    unfolding round_float_def using assms by (intro round_fp_small) simp_all
qed

lemma round_near_100:
  assumes "0 < small" and "small < 1 / 4"
  shows "\<exists>r. round_double (small + 100) = Some r \<and> 100 \<le> r \<and> r \<le> 100 + 1 / 4"
    and "\<exists>r. round_float (small + 100) = Some r \<and> 100 \<le> r \<and> r \<le> 100 + 1 / 4"
proof -
  have fl: "\<lfloor>small + 100\<rfloor> = 100" using assms by (simp add: floor_eq_iff)
  have e: "ilog2 (small + 100) = 6" "ilog2 \<bar>small + 100\<bar> = 6"
    using assms fl by (simp_all add: ilog2_def bits.simps)
  have nz: "small + 100 \<noteq> 0" using assms by simp
  have "\<exists>r. round_fp 53 (- 1074) 1023 (small + 100) = Some r \<and>
      of_int (100 * 2 ^ 46) * pow2 (- 46) \<le> r \<and> r \<le> of_int (401 * 2 ^ 44) * pow2 (- 46)"
    using assms by (intro round_fp_between nz) (simp_all add: e pow2_def)
  thus "\<exists>r. round_double (small + 100) = Some r \<and> 100 \<le> r \<and> r \<le> 100 + 1 / 4"
    by (simp add: round_double_def pow2_def)
  have "\<exists>r. round_fp 24 (- 149) 127 (small + 100) = Some r \<and>
      of_int (100 * 2 ^ 17) * pow2 (- 17) \<le> r \<and> r \<le> of_int (401 * 2 ^ 15) * pow2 (- 17)"
    using assms by (intro round_fp_between nz) (simp_all add: e pow2_def)
  thus "\<exists>r. round_float (small + 100) = Some r \<and> 100 \<le> r \<and> r \<le> 100 + 1 / 4"
    by (simp add: round_float_def pow2_def)
qed

section \<open>Cell index: results\<close>




lemma static_cast_T2_0: "0 \<le> r \<Longrightarrow> r \<le> 1 / 4 \<Longrightarrow> static_cast_T2 r = Some 0"
proof -
  assume "0 \<le> r" "r \<le> 1 / 4"
  hence "\<lfloor>r\<rfloor> = 0" by (simp add: floor_eq_iff)
  with \<open>0 \<le> r\<close> show ?thesis by (simp add: static_cast_T2_def)
qed

lemma static_cast_T2_100: "100 \<le> r \<Longrightarrow> r \<le> 100 + 1 / 4 \<Longrightarrow> static_cast_T2 r = Some 100"
proof -
  assume "100 \<le> r" "r \<le> 100 + 1 / 4"
  hence "\<lfloor>r\<rfloor> = 100" by (simp add: floor_eq_iff)
  with \<open>100 \<le> r\<close> show ?thesis by (simp add: static_cast_T2_def)
qed








text \<open>
  Claim C3. In single precision the point on the maximum of an axis is mapped one past
  the last cell. The grid has 100 cells of size \<open>1/2\<close> from 5000000 along the first axis,
  so its maximum is 5000050, and \<open>small\<close> is any positive number less than half the cell
  size, of type \<^verbatim>\<open>float\<close> or \<^verbatim>\<open>double\<close>. Line 90 takes the branch \<^verbatim>\<open>xmax-.5*dx\<close>, which
  is \<open>5000049.75\<close> in \<^verbatim>\<open>double\<close>; the values of \<^verbatim>\<open>float\<close> around it are \<open>1/2\<close> apart, and
  the conversion to \<open>T1\<close> rounds it to the even neighbour, 5000050 again. Line 93 then
  gives the cell number 100 on an axis whose cells are numbered 0 to 99, and line 96
  the index 100 in a grid of 100 cells.
\<close>

theorem boundary_point_overrun:
  assumes "0 < small" and "small < 1 / 4"
    and "rT A = round_float" and "rD A = round_double"
    and "rS A = round_float \<or> rS A = round_double"
  shows "Grid3Dr_T1 A 100 1 1 (1 / 2) (1 / 2) (1 / 2) 5000000 0 0 1 1 1 1 =
           Some (Grid3Dr 100 1 1 (1 / 2) (1 / 2) (1 / 2) 5000000 0 0 1 1 1 1) \<and>
         xmax (Grid3Dr 100 1 1 (1 / 2) (1 / 2) (1 / 2) 5000000 0 0 1 1 1 1) = 5000050 \<and>
         getNumberOfCells (Grid3Dr 100 1 1 (1 / 2) (1 / 2) (1 / 2) 5000000 0 0 1 1 1 1) = 100 \<and>
         snapped A small 5000050 (1 / 2) 5000050 = Some 5000050 \<and>
         cell_numbers A small (Grid3Dr 100 1 1 (1 / 2) (1 / 2) (1 / 2) 5000000 0 0 1 1 1 1)
           \<lparr>x = 5000050, y = 0, z = 0\<rparr> = (Some 100, Some 0, Some 0) \<and>
         getCellNo A small (Grid3Dr 100 1 1 (1 / 2) (1 / 2) (1 / 2) 5000000 0 0 1 1 1 1)
           \<lparr>x = 5000050, y = 0, z = 0\<rparr> = Some 100"
proof -
  have g: "Grid3Dr_T1 A 100 1 1 (1 / 2) (1 / 2) (1 / 2) 5000000 0 0 1 1 1 1 =
           Some (Grid3Dr 100 1 1 (1 / 2) (1 / 2) (1 / 2) 5000000 0 0 1 1 1 1)"
    using assms(3) by (simp add: Grid3Dr_T1_def Grid3Dr_def fp_eval)
  have s: "snapped A small 5000050 (1 / 2) 5000050 = Some 5000050"
    using assms(1,3,4) by (simp add: snapped_def fp_eval)
  have s0: "snapped A small (1 / 2) (1 / 2) 0 = Some 0"
    using assms(2,3) by (simp add: snapped_def fp_eval)
  obtain r where r: "rS A (small + 100) = Some r" "100 \<le> r" "r \<le> 100 + 1 / 4"
    using assms(5) round_near_100 [OF assms(1,2)] by auto
  obtain r0 where r0: "rS A small = Some r0" "0 \<le> r0" "r0 \<le> 1 / 4"
    using assms(5) round_near_0 [OF assms(1,2)] by auto
  have c: "cell_no A small 5000000 (1 / 2) (Some 5000050) = Some 100"
    using assms(3) r static_cast_T2_100 [OF r(2,3)] by (simp add: cell_no_def fp_eval)
  have c0: "cell_no A small 0 (1 / 2) (Some 0) = Some 0"
    using assms(3) r0 static_cast_T2_0 [OF r0(2,3)] by (simp add: cell_no_def fp_eval)
  have n: "cell_numbers A small (Grid3Dr 100 1 1 (1 / 2) (1 / 2) (1 / 2) 5000000 0 0 1 1 1 1)
           \<lparr>x = 5000050, y = 0, z = 0\<rparr> = (Some 100, Some 0, Some 0)"
    using s s0 c c0 by (simp add: cell_numbers_def Let_def Grid3Dr_def)
  have i: "getCellNo A small (Grid3Dr 100 1 1 (1 / 2) (1 / 2) (1 / 2) 5000000 0 0 1 1 1 1)
           \<lparr>x = 5000050, y = 0, z = 0\<rparr> = Some 100"
    unfolding getCellNo_def n by (simp add: Grid3Dr_def)
  have k: "getNumberOfCells (Grid3Dr 100 1 1 (1 / 2) (1 / 2) (1 / 2) 5000000 0 0 1 1 1 1) = 100"
    by (simp add: getNumberOfCells_def Grid3Dr_def)
  have m: "xmax (Grid3Dr 100 1 1 (1 / 2) (1 / 2) (1 / 2) 5000000 0 0 1 1 1 1) = 5000050"
    by (simp add: Grid3Dr_def)
  from g m k s n i show ?thesis by (intro conjI)
qed

theorem boundary_point_overrun_witness:
  "0 < small_1e5 \<and> small_1e5 < 1 / 4 \<and>
   rT float_arith = round_float \<and> rD float_arith = round_double \<and>
   rS float_arith = round_double \<and>
   getCellNo float_arith small_1e5 (Grid3Dr 100 1 1 (1 / 2) (1 / 2) (1 / 2) 5000000 0 0 1 1 1 1)
     \<lparr>x = 5000050, y = 0, z = 0\<rparr> = Some 100 \<and>
   getNumberOfCells (Grid3Dr 100 1 1 (1 / 2) (1 / 2) (1 / 2) 5000000 0 0 1 1 1 1) = 100 \<and>
   Grid3Dr_T1 float_arith 100 1 1 (1 / 2) (1 / 2) (1 / 2) 5000000 0 0 1 1 1 1 =
     Some (Grid3Dr 100 1 1 (1 / 2) (1 / 2) (1 / 2) 5000000 0 0 1 1 1 1)"
  using boundary_point_overrun [of small_1e5 float_arith]
  by (simp add: small_1e5_def float_arith_def)

section \<open>Slowness assignment: results\<close>

text \<open>
  Claim C8, as amended. \<^verbatim>\<open>Grid3Dr::setSlowness\<close> on a sequence never compares the length
  of the sequence with the number of cells or nodes: it returns 0 (success) for every
  sequence and leaves the grid as it was; the overload on a scalar leaves the grid as
  it was too and cannot fail.
\<close>

theorem setSlowness_no_size_check:
  "setSlowness_vector g s = (0, g) \<and> setSlowness g v = g"
  by (simp add: setSlowness_vector_def setSlowness_def)

text \<open>
  Claim C8, as stated, fails: a grid of 8 cells takes a sequence of 3 values and
  returns 0.
\<close>

theorem setSlowness_accepts_wrong_size:
  "getNumberOfCells (Grid3Dr 2 2 2 1 1 1 0 0 0 1 1 1 1) = 8 \<and> length [1 :: real, 1, 1] = 3 \<and>
   fst (setSlowness_vector (Grid3Dr 2 2 2 1 1 1 0 0 0 1 1 1 1) [1, 1, 1]) = 0"
  by (simp add: setSlowness_vector_def getNumberOfCells_def Grid3Dr_def)

section \<open>Stitching of reflected ray paths: results\<close>

text \<open>The copying loop appends the vector from its start index on.\<close>

lemma push_back_from_drop: "push_back_from i v r = r @ drop i v"
proof (induction i v r rule: push_back_from.induct)
  case (1 i v r)
  show ?case
  proof (cases "i < length v")
    case True
    hence "push_back_from i v r = push_back_from (i + 1) v (r @ [v ! i])"
      by (subst push_back_from.simps) simp
    also have "\<dots> = (r @ [v ! i]) @ drop (i + 1) v"
      using True by (rule "1.IH")
    also have "\<dots> = r @ drop i v"
      using True by (simp add: Cons_nth_drop_Suc)
    finally show ?thesis .
  next
    case False
    thus ?thesis by (subst push_back_from.simps) simp
  qed
qed

lemma find_junction_first_match:
  "n < length rfl \<Longrightarrow> (\<forall>m<n. rfl ! m \<noteq> [] \<and> \<not> eq pt1 (last (rfl ! m))) \<Longrightarrow>
   rfl ! n \<noteq> [] \<Longrightarrow> eq pt1 (last (rfl ! n)) \<Longrightarrow>
   find_junction eq pt1 p2 r rfl = Inr (r @ rfl ! n @ drop 1 p2)"
proof (induction rfl arbitrary: n)
  case Nil
  thus ?case by simp
next
  case (Cons p ps)
  show ?case
  proof (cases n)
    case 0
    with Cons.prems show ?thesis
      by (simp add: back_of_def push_back_from_drop)
  next
    case (Suc k)
    with Cons.prems have p: "p \<noteq> []" "\<not> eq pt1 (last p)" by auto
    from Suc Cons.prems have "find_junction eq pt1 p2 r ps = Inr (r @ ps ! k @ drop 1 p2)"
      by (intro Cons.IH) auto
    with p Suc show ?thesis by (simp add: back_of_def)
  qed
qed

lemma find_junction_no_match:
  "(\<forall>m<length rfl. rfl ! m \<noteq> [] \<and> \<not> eq pt1 (last (rfl ! m))) \<Longrightarrow>
   find_junction eq pt1 p2 r rfl = Inr r"
proof (induction rfl)
  case Nil
  thus ?case by simp
next
  case (Cons p ps)
  hence "p \<noteq> []" "\<not> eq pt1 (last p)" "\<forall>m<length ps. ps ! m \<noteq> [] \<and> \<not> eq pt1 (last (ps ! m))"
    by (auto simp: All_less_Suc2)
  with Cons.IH show ?case by (simp add: back_of_def)
qed

text \<open>
  The search reads the last point of every path up to the first match, and of no path
  after it: it fails exactly when an empty path stands before any match.
\<close>

lemma find_junction_ok_iff:
  "(\<exists>q. find_junction eq pt1 p2 r rfl = Inr q) \<longleftrightarrow>
   (\<forall>n<length rfl. rfl ! n = [] \<longrightarrow> (\<exists>m<n. rfl ! m \<noteq> [] \<and> eq pt1 (last (rfl ! m))))"
proof (induction rfl)
  case Nil
  show ?case by simp
next
  case (Cons p ps)
  show ?case
  proof (cases "p = []")
    case True
    thus ?thesis by (auto simp: back_of_def)
  next
    case ne: False
    show ?thesis
    proof (cases "eq pt1 (last p)")
      case True
      with ne show ?thesis by (auto simp: back_of_def All_less_Suc2 Ex_less_Suc2)
    next
      case False
      with ne Cons.IH show ?thesis by (simp add: back_of_def All_less_Suc2 Ex_less_Suc2)
    qed
  qed
qed

lemma find_junction_error: "find_junction eq pt1 p2 r rfl = Inl e \<Longrightarrow> e = IndexOutOfRange"
  by (induction rfl) (auto simp: back_of_def split: if_splits)

lemma stitch_receiver_iff:
  "stitch_receiver eq rfl rfl2 irx r = Inr q \<longleftrightarrow>
     irx < length rfl2 \<and> rfl2 ! irx \<noteq> [] \<and>
     find_junction eq (hd (rfl2 ! irx)) (rfl2 ! irx) r rfl = Inr q"
  by (auto simp: stitch_receiver_def at_index_def hd_conv_nth)

lemma stitch_loop_result:
  "stitch_loop eq nrcv rfl rfl2 irx r_tmp = Inr res \<Longrightarrow> length r_tmp = nrcv \<Longrightarrow>
   length res = nrcv \<and>
   (\<forall>i<nrcv. if irx \<le> i then stitch_receiver eq rfl rfl2 i (r_tmp ! i) = Inr (res ! i)
              else res ! i = r_tmp ! i)"
proof (induction eq nrcv rfl rfl2 irx r_tmp rule: stitch_loop.induct)
  case (1 eq nrcv rfl rfl2 irx r_tmp)
  show ?case
  proof (cases "irx < nrcv")
    case False
    with "1.prems" have "res = r_tmp"
      by (subst (asm) stitch_loop.simps) simp
    with False "1.prems" show ?thesis by auto
  next
    case True
    from "1.prems"(1) True obtain r where
      r: "stitch_receiver eq rfl rfl2 irx (r_tmp ! irx) = Inr r" and
      rest: "stitch_loop eq nrcv rfl rfl2 (irx + 1) (r_tmp[irx := r]) = Inr res"
      by (subst (asm) stitch_loop.simps) (auto split: sum.splits)
    have ih: "length res = nrcv \<and>
       (\<forall>i<nrcv. if irx + 1 \<le> i
          then stitch_receiver eq rfl rfl2 i (r_tmp[irx := r] ! i) = Inr (res ! i)
          else res ! i = r_tmp[irx := r] ! i)"
    proof -
      have "length (r_tmp[irx := r]) = nrcv" using "1.prems"(2) by simp
      thus ?thesis by (rule "1.IH" [OF True r rest])
    qed
    have "if irx \<le> i then stitch_receiver eq rfl rfl2 i (r_tmp ! i) = Inr (res ! i)
          else res ! i = r_tmp ! i" if "i < nrcv" for i
    proof -
      from ih that have h: "if irx + 1 \<le> i
          then stitch_receiver eq rfl rfl2 i (r_tmp[irx := r] ! i) = Inr (res ! i)
          else res ! i = r_tmp[irx := r] ! i"
        by blast
      show ?thesis
      proof (cases "i = irx")
        case True
        with h that "1.prems"(2) r show ?thesis by simp
      next
        case False
        hence "r_tmp[irx := r] ! i = r_tmp ! i" by simp
        with h False show ?thesis by (cases "irx + 1 \<le> i") auto
      qed
    qed
    with ih show ?thesis by blast
  qed
qed

lemma stitch_loop_succeeds:
  "(\<forall>i. irx \<le> i \<and> i < nrcv \<longrightarrow> (\<exists>r. stitch_receiver eq rfl rfl2 i (r_tmp ! i) = Inr r)) \<Longrightarrow>
   length r_tmp = nrcv \<Longrightarrow> \<exists>res. stitch_loop eq nrcv rfl rfl2 irx r_tmp = Inr res"
proof (induction eq nrcv rfl rfl2 irx r_tmp rule: stitch_loop.induct)
  case (1 eq nrcv rfl rfl2 irx r_tmp)
  show ?case
  proof (cases "irx < nrcv")
    case False
    thus ?thesis by (subst stitch_loop.simps) simp
  next
    case True
    with "1.prems" obtain r where r: "stitch_receiver eq rfl rfl2 irx (r_tmp ! irx) = Inr r"
      by blast
    have "\<exists>res. stitch_loop eq nrcv rfl rfl2 (irx + 1) (r_tmp[irx := r]) = Inr res"
      using "1.prems" by (intro "1.IH" [OF True r]) auto
    with True r show ?thesis by (subst stitch_loop.simps) simp
  qed
qed

text \<open>The loop over the receivers fills every entry of \<^verbatim>\<open>r_tmp\<close> from its receiver alone.\<close>

lemma stitch_iff:
  "stitch eq nrcv rfl rfl2 = Inr res \<longleftrightarrow>
     length res = nrcv \<and> (\<forall>i<nrcv. stitch_receiver eq rfl rfl2 i [] = Inr (res ! i))"
proof
  assume "stitch eq nrcv rfl rfl2 = Inr res"
  from stitch_loop_result [OF this [unfolded stitch_def]]
  show "length res = nrcv \<and> (\<forall>i<nrcv. stitch_receiver eq rfl rfl2 i [] = Inr (res ! i))"
    by simp
next
  assume a: "length res = nrcv \<and> (\<forall>i<nrcv. stitch_receiver eq rfl rfl2 i [] = Inr (res ! i))"
  hence "\<forall>i. 0 \<le> i \<and> i < nrcv \<longrightarrow>
      (\<exists>r. stitch_receiver eq rfl rfl2 i (replicate nrcv [] ! i) = Inr r)"
    by simp
  from stitch_loop_succeeds [OF this] obtain res' where
    res': "stitch eq nrcv rfl rfl2 = Inr res'"
    by (auto simp: stitch_def)
  from stitch_loop_result [OF this [unfolded stitch_def]]
  have "length res' = nrcv \<and> (\<forall>i<nrcv. stitch_receiver eq rfl rfl2 i [] = Inr (res' ! i))"
    by simp
  with a have "res' = res" by (intro nth_equalityI) auto
  with res' show "stitch eq nrcv rfl rfl2 = Inr res" by simp
qed

lemma stitch_result:
  assumes len: "nrcv \<le> length rfl2" and ne2: "\<forall>i<nrcv. rfl2 ! i \<noteq> []"
    and ne: "\<forall>p\<in>set rfl. p \<noteq> []"
  shows "\<exists>r_tmp. stitch eq nrcv rfl rfl2 = Inr r_tmp \<and> length r_tmp = nrcv \<and>
     (\<forall>j<nrcv.
        (\<forall>n<length rfl. eq (hd (rfl2 ! j)) (last (rfl ! n)) \<and>
            (\<forall>m<n. \<not> eq (hd (rfl2 ! j)) (last (rfl ! m))) \<longrightarrow>
            r_tmp ! j = rfl ! n @ tl (rfl2 ! j)) \<and>
        ((\<forall>n<length rfl. \<not> eq (hd (rfl2 ! j)) (last (rfl ! n))) \<longrightarrow> r_tmp ! j = []))"
proof -
  have nth_ne: "rfl ! n \<noteq> []" if "n < length rfl" for n
    using ne that by (simp add: nth_mem)
  have "\<exists>r. stitch_receiver eq rfl rfl2 i (replicate nrcv [] ! i) = Inr r"
    if "0 \<le> i \<and> i < nrcv" for i
  proof -
    have "\<exists>q. find_junction eq (hd (rfl2 ! i)) (rfl2 ! i) [] rfl = Inr q"
      unfolding find_junction_ok_iff using nth_ne by blast
    with that len ne2 show ?thesis by (simp add: stitch_receiver_iff)
  qed
  hence "\<exists>res. stitch_loop eq nrcv rfl rfl2 0 (replicate nrcv []) = Inr res"
    by (intro stitch_loop_succeeds) auto
  then obtain r_tmp where r_tmp: "stitch eq nrcv rfl rfl2 = Inr r_tmp"
    by (auto simp: stitch_def)
  hence l: "length r_tmp = nrcv"
    and rcv: "\<And>i. i < nrcv \<Longrightarrow> stitch_receiver eq rfl rfl2 i [] = Inr (r_tmp ! i)"
    by (simp_all add: stitch_iff)
  have fj: "find_junction eq (hd (rfl2 ! j)) (rfl2 ! j) [] rfl = Inr (r_tmp ! j)"
    if "j < nrcv" for j
    using rcv [OF that] by (simp add: stitch_receiver_iff)
  have "r_tmp ! j = rfl ! n @ tl (rfl2 ! j)"
    if "j < nrcv" "n < length rfl" "eq (hd (rfl2 ! j)) (last (rfl ! n))"
      "\<forall>m<n. \<not> eq (hd (rfl2 ! j)) (last (rfl ! m))" for j n
  proof -
    have "find_junction eq (hd (rfl2 ! j)) (rfl2 ! j) [] rfl
        = Inr ([] @ rfl ! n @ drop 1 (rfl2 ! j))"
      using that nth_ne by (intro find_junction_first_match) auto
    with fj [OF that(1)] show ?thesis by (simp add: drop_Suc)
  qed
  moreover have "r_tmp ! j = []"
    if "j < nrcv" "\<forall>n<length rfl. \<not> eq (hd (rfl2 ! j)) (last (rfl ! n))" for j
  proof -
    have "find_junction eq (hd (rfl2 ! j)) (rfl2 ! j) [] rfl = Inr []"
      using that nth_ne by (intro find_junction_no_match) auto
    with fj [OF that(1)] show ?thesis by simp
  qed
  ultimately show ?thesis using r_tmp l by blast
qed

text \<open>
  Claim C2. Ray paths are requested, every receiver has a non-empty path from the
  reflector and every path from the source to the reflector is non-empty. If, for
  receiver \<open>irx\<close>, the first point of its path compares equal to the last point of some
  path \<open>k\<close> from the source to the reflector, the stitching returns, and the stitched
  path of that receiver is the whole path from the source to the reflector of the first
  such match \<open>n\<close> followed by the receiver's path without its first point: the junction
  is there once, the length is the sum of the two lengths minus one. Stitching
  \<open>[(0,0,0), (1,0,0), (2,0,0)]\<close> with \<open>[(2,0,0), (3,0,0)]\<close> gives
  \<open>[(0,0,0), (1,0,0), (2,0,0), (3,0,0)]\<close>.
\<close>

theorem stitch_junction_once:
  assumes "nrcv \<le> length rfl2" and "\<forall>i<nrcv. rfl2 ! i \<noteq> []" and "\<forall>p\<in>set rfl. p \<noteq> []"
    and "irx < nrcv" and "k < length rfl" and "eq (hd (rfl2 ! irx)) (last (rfl ! k))"
  shows "(\<exists>r_tmp n. reflected_raypaths True eq nrcv rfl rfl2 = Inr (Some r_tmp) \<and>
            length r_tmp = nrcv \<and> n \<le> k \<and> eq (hd (rfl2 ! irx)) (last (rfl ! n)) \<and>
            (\<forall>m<n. \<not> eq (hd (rfl2 ! irx)) (last (rfl ! m))) \<and>
            r_tmp ! irx = rfl ! n @ tl (rfl2 ! irx) \<and>
            length (r_tmp ! irx) = length (rfl ! n) + length (rfl2 ! irx) - 1) \<and>
         reflected_raypaths True sxyz_eq 1
           [[\<lparr>x = 0, y = 0, z = 0\<rparr>, \<lparr>x = 1, y = 0, z = 0\<rparr>, \<lparr>x = 2, y = 0, z = 0\<rparr>]]
           [[\<lparr>x = 2, y = 0, z = 0\<rparr>, \<lparr>x = 3, y = 0, z = 0\<rparr>]] =
         Inr (Some [[\<lparr>x = 0, y = 0, z = 0\<rparr>, \<lparr>x = 1, y = 0, z = 0\<rparr>, \<lparr>x = 2, y = 0, z = 0\<rparr>,
                     \<lparr>x = 3, y = 0, z = 0\<rparr>]])"
proof
  define P where "P n \<longleftrightarrow> eq (hd (rfl2 ! irx)) (last (rfl ! n))" for n
  define n where "n = (LEAST n. P n)"
  have Pk: "P k" using assms(6) by (simp add: P_def)
  hence Pn: "P n" and nk: "n \<le> k" and least: "\<forall>m<n. \<not> P m"
    unfolding n_def by (auto intro: LeastI Least_le dest: not_less_Least)
  from stitch_result [OF assms(1-3), of eq] obtain r_tmp where
    r: "stitch eq nrcv rfl rfl2 = Inr r_tmp" "length r_tmp = nrcv"
    and m: "\<forall>j<nrcv. \<forall>n<length rfl. eq (hd (rfl2 ! j)) (last (rfl ! n)) \<and>
            (\<forall>m<n. \<not> eq (hd (rfl2 ! j)) (last (rfl ! m))) \<longrightarrow>
            r_tmp ! j = rfl ! n @ tl (rfl2 ! j)"
    by blast
  have "n < length rfl" using nk assms(5) by simp
  with m assms(4) Pn least have v: "r_tmp ! irx = rfl ! n @ tl (rfl2 ! irx)"
    unfolding P_def by blast
  have "rfl2 ! irx \<noteq> []" using assms(2,4) by simp
  with v have "length (r_tmp ! irx) = length (rfl ! n) + length (rfl2 ! irx) - 1"
    by (cases "rfl2 ! irx") simp_all
  with r v Pn nk least
  show "\<exists>r_tmp n. reflected_raypaths True eq nrcv rfl rfl2 = Inr (Some r_tmp) \<and>
            length r_tmp = nrcv \<and> n \<le> k \<and> eq (hd (rfl2 ! irx)) (last (rfl ! n)) \<and>
            (\<forall>m<n. \<not> eq (hd (rfl2 ! irx)) (last (rfl ! m))) \<and>
            r_tmp ! irx = rfl ! n @ tl (rfl2 ! irx) \<and>
            length (r_tmp ! irx) = length (rfl ! n) + length (rfl2 ! irx) - 1"
    unfolding P_def reflected_raypaths_def by auto
next
  have "stitch sxyz_eq 1
           [[\<lparr>x = 0, y = 0, z = 0\<rparr>, \<lparr>x = 1, y = 0, z = 0\<rparr>, \<lparr>x = 2, y = 0, z = 0\<rparr>]]
           [[\<lparr>x = 2, y = 0, z = 0\<rparr>, \<lparr>x = 3, y = 0, z = 0\<rparr>]] =
         Inr [[\<lparr>x = 0, y = 0, z = 0\<rparr>, \<lparr>x = 1, y = 0, z = 0\<rparr>, \<lparr>x = 2, y = 0, z = 0\<rparr>,
                     \<lparr>x = 3, y = 0, z = 0\<rparr>]]"
    by (simp add: stitch_iff stitch_receiver_iff back_of_def sxyz_eq_def push_back_from_drop)
  thus "reflected_raypaths True sxyz_eq 1
           [[\<lparr>x = 0, y = 0, z = 0\<rparr>, \<lparr>x = 1, y = 0, z = 0\<rparr>, \<lparr>x = 2, y = 0, z = 0\<rparr>]]
           [[\<lparr>x = 2, y = 0, z = 0\<rparr>, \<lparr>x = 3, y = 0, z = 0\<rparr>]] =
         Inr (Some [[\<lparr>x = 0, y = 0, z = 0\<rparr>, \<lparr>x = 1, y = 0, z = 0\<rparr>, \<lparr>x = 2, y = 0, z = 0\<rparr>,
                     \<lparr>x = 3, y = 0, z = 0\<rparr>]])"
    by (simp add: reflected_raypaths_def)
qed

lemma reflected_raypaths_iff:
  "reflected_raypaths True eq nrcv rfl rfl2 = Inr (Some r) \<longleftrightarrow> stitch eq nrcv rfl rfl2 = Inr r"
  by (auto simp: reflected_raypaths_def split: sum.splits)

lemmas stitch_eval = reflected_raypaths_iff stitch_iff stitch_receiver_iff back_of_def
  push_back_from_drop numeral_2_eq_2 All_less_Suc

theorem stitch_junction_once_witness:
  "reflected_raypaths True (=) 2 [[0, 1, 2], [7, 8]] [[8, 9], [2, 3]] =
     Inr (Some [[7, 8, 9], [0 :: nat, 1, 2, 3]])"
  using stitch_junction_once [of 2 "[[8, 9], [2, 3 :: nat]]" "[[0, 1, 2], [7, 8]]" 1 0 "(=)"]
  by (simp add: stitch_eval)

text \<open>
  Claim C10. Under the same conditions, if no path from the source to the reflector has
  a last point that compares equal to the first point of the path of receiver \<open>irx\<close>,
  the stitching still returns without an error, the stitched path of that receiver is
  empty, and every other receiver with a match has its stitched path in the collection
  that is saved.
\<close>

theorem stitch_no_match_empty:
  assumes "nrcv \<le> length rfl2" and "\<forall>i<nrcv. rfl2 ! i \<noteq> []" and "\<forall>p\<in>set rfl. p \<noteq> []"
    and "irx < nrcv" and "\<forall>n<length rfl. \<not> eq (hd (rfl2 ! irx)) (last (rfl ! n))"
  shows "\<exists>r_tmp. reflected_raypaths True eq nrcv rfl rfl2 = Inr (Some r_tmp) \<and>
           length r_tmp = nrcv \<and> r_tmp ! irx = [] \<and>
           (\<forall>j<nrcv. \<forall>n<length rfl.
              eq (hd (rfl2 ! j)) (last (rfl ! n)) \<and>
              (\<forall>m<n. \<not> eq (hd (rfl2 ! j)) (last (rfl ! m))) \<longrightarrow>
              r_tmp ! j = rfl ! n @ tl (rfl2 ! j))"
proof -
  from stitch_result [OF assms(1-3), of eq] obtain r_tmp where
    r: "stitch eq nrcv rfl rfl2 = Inr r_tmp" "length r_tmp = nrcv"
    and m: "\<forall>j<nrcv.
        (\<forall>n<length rfl. eq (hd (rfl2 ! j)) (last (rfl ! n)) \<and>
            (\<forall>m<n. \<not> eq (hd (rfl2 ! j)) (last (rfl ! m))) \<longrightarrow>
            r_tmp ! j = rfl ! n @ tl (rfl2 ! j)) \<and>
        ((\<forall>n<length rfl. \<not> eq (hd (rfl2 ! j)) (last (rfl ! n))) \<longrightarrow> r_tmp ! j = [])"
    by blast
  from m assms(4,5) have "r_tmp ! irx = []" by blast
  with r m show ?thesis unfolding reflected_raypaths_def by auto
qed

theorem stitch_no_match_empty_witness:
  "reflected_raypaths True (=) 2 [[0, 1, 2], [7, 8]] [[5, 9], [2, 3]] =
     Inr (Some [[], [0 :: nat, 1, 2, 3]])"
  using stitch_no_match_empty [of 2 "[[5, 9], [2, 3 :: nat]]" "[[0, 1, 2], [7, 8]]" 0 "(=)"]
  by (simp add: stitch_eval)

text \<open>
  Claim C9, as amended. The stitching reads inside its vectors exactly when every
  receiver has a path from the reflector, that path is non-empty, and every empty path
  from the source to the reflector stands after a match for every receiver: the first
  point of each receiver's path is read whatever happens, the last point of a path from
  the source to the reflector only up to the first match. In particular it reads inside
  its vectors when all of these paths are non-empty.
\<close>

theorem stitch_defined_iff:
  "((\<exists>r_tmp. stitch eq nrcv rfl rfl2 = Inr r_tmp) \<longleftrightarrow>
      nrcv \<le> length rfl2 \<and>
      (\<forall>irx<nrcv. rfl2 ! irx \<noteq> [] \<and>
         (\<forall>n<length rfl. rfl ! n = [] \<longrightarrow>
            (\<exists>m<n. rfl ! m \<noteq> [] \<and> eq (hd (rfl2 ! irx)) (last (rfl ! m)))))) \<and>
   (nrcv \<le> length rfl2 \<and> (\<forall>irx<nrcv. rfl2 ! irx \<noteq> []) \<and> (\<forall>p\<in>set rfl. p \<noteq> []) \<longrightarrow>
      (\<exists>r_tmp. stitch eq nrcv rfl rfl2 = Inr r_tmp))"
proof
  show "(\<exists>r_tmp. stitch eq nrcv rfl rfl2 = Inr r_tmp) \<longleftrightarrow>
      nrcv \<le> length rfl2 \<and>
      (\<forall>irx<nrcv. rfl2 ! irx \<noteq> [] \<and>
         (\<forall>n<length rfl. rfl ! n = [] \<longrightarrow>
            (\<exists>m<n. rfl ! m \<noteq> [] \<and> eq (hd (rfl2 ! irx)) (last (rfl ! m)))))"
    (is "?L \<longleftrightarrow> ?R")
  proof
    assume ?L
    then obtain r_tmp where "stitch eq nrcv rfl rfl2 = Inr r_tmp" ..
    hence rcv: "\<forall>i<nrcv. stitch_receiver eq rfl rfl2 i [] = Inr (r_tmp ! i)"
      by (simp add: stitch_iff)
    hence "\<forall>i<nrcv. i < length rfl2" by (simp add: stitch_receiver_iff)
    hence "nrcv \<le> length rfl2" by (meson not_less order_refl)
    moreover have "rfl2 ! irx \<noteq> [] \<and>
         (\<forall>n<length rfl. rfl ! n = [] \<longrightarrow>
            (\<exists>m<n. rfl ! m \<noteq> [] \<and> eq (hd (rfl2 ! irx)) (last (rfl ! m))))"
      if "irx < nrcv" for irx
    proof -
      from rcv that have "rfl2 ! irx \<noteq> []"
        and "\<exists>q. find_junction eq (hd (rfl2 ! irx)) (rfl2 ! irx) [] rfl = Inr q"
        by (auto simp: stitch_receiver_iff)
      thus ?thesis by (simp add: find_junction_ok_iff)
    qed
    ultimately show ?R by blast
  next
    assume r: ?R
    have "\<exists>q. stitch_receiver eq rfl rfl2 i (replicate nrcv [] ! i) = Inr q"
      if "0 \<le> i \<and> i < nrcv" for i
    proof -
      from r that have "\<exists>q. find_junction eq (hd (rfl2 ! i)) (rfl2 ! i) [] rfl = Inr q"
        unfolding find_junction_ok_iff by blast
      with r that show ?thesis by (simp add: stitch_receiver_iff)
    qed
    hence "\<exists>res. stitch_loop eq nrcv rfl rfl2 0 (replicate nrcv []) = Inr res"
      by (intro stitch_loop_succeeds) auto
    thus ?L by (simp add: stitch_def)
  qed
  show "nrcv \<le> length rfl2 \<and> (\<forall>irx<nrcv. rfl2 ! irx \<noteq> []) \<and> (\<forall>p\<in>set rfl. p \<noteq> []) \<longrightarrow>
      (\<exists>r_tmp. stitch eq nrcv rfl rfl2 = Inr r_tmp)"
    using stitch_result [of nrcv rfl2 rfl eq] by blast
qed

theorem stitch_defined_iff_witness:
  "stitch (=) 2 [[0, 1, 2], [7, 8]] [[5, 9], [2, 3]] = Inr [[], [0 :: nat, 1, 2, 3]] \<and>
   (\<exists>e. stitch (=) 2 [[0, 1, 2], [7, 8]] [[5, 9], [] :: nat list] = Inl e) \<and>
   (\<exists>e. stitch (=) 2 [[], [7, 8]] [[5, 9], [2, 3 :: nat]] = Inl e)"
proof -
  have a: "isl v \<longleftrightarrow> \<not> (\<exists>r. v = Inr r)" for v :: "error + nat list list"
    by (cases v) auto
  have "\<not> (\<exists>r_tmp. stitch (=) 2 [[0, 1, 2], [7, 8]] [[5, 9], [] :: nat list] = Inr r_tmp)"
    using stitch_defined_iff [of "(=)" 2 "[[0, 1, 2], [7, 8]]" "[[5, 9], [] :: nat list]"]
    by (simp add: All_less_Suc numeral_2_eq_2)
  moreover
  have "\<not> (\<exists>r_tmp. stitch (=) 2 [[], [7, 8]] [[5, 9], [2, 3 :: nat]] = Inr r_tmp)"
    using stitch_defined_iff [of "(=)" 2 "[[], [7, 8]]" "[[5, 9], [2, 3 :: nat]]"]
    by (simp add: All_less_Suc numeral_2_eq_2)
  moreover
  have "stitch (=) 2 [[0, 1, 2], [7, 8]] [[5, 9], [2, 3]] = Inr [[], [0 :: nat, 1, 2, 3]]"
    by (simp add: stitch_eval)
  ultimately show ?thesis using a by (metis sum.collapse(1))
qed

text \<open>
  Claim C9, as stated, fails: the last point of a path from the source to the reflector
  is not read once an earlier path has matched, so the stitching is well defined with
  an empty path behind the match.
\<close>

theorem stitch_skips_empty_path_after_match:
  "stitch (=) 1 [[0, 1, 2], []] [[2, 3]] = Inr [[0 :: nat, 1, 2, 3]] \<and>
   [[0 :: nat, 1, 2], []] ! 1 = []"
  by (simp add: stitch_eval)

section \<open>The global ray path file: results\<close>

text \<open>Every writing loop appends the encoding of its collection to the stream.\<close>

lemma write_path_enc: "write_path fout v = fout @ enc_path v"
  by (simp add: write_path_def enc_path_def)

lemma foldl_write:
  assumes "\<And>acc v. w acc v = acc @ enc v"
  shows "foldl w acc vs = acc @ concat (map enc vs)"
  by (induction vs arbitrary: acc) (simp_all add: assms)

lemma foldl_enc_nested:
  assumes "\<And>acc v. w acc v = acc @ enc v"
  shows "foldl w (fout @ [Size (length vs)]) vs = fout @ enc_nested enc vs"
  by (simp add: foldl_write [of w enc, OF assms] enc_nested_def)

lemma write_paths_enc: "write_paths fout v = fout @ enc_nested enc_path v"
  unfolding write_paths_def by (rule foldl_enc_nested) (rule write_path_enc)

lemma write_paths3_enc: "write_paths3 fout v = fout @ enc_nested (enc_nested enc_path) v"
  unfolding write_paths3_def by (rule foldl_enc_nested) (rule write_paths_enc)

lemma write_paths4_enc:
  "write_paths4 fout v = fout @ enc_nested (enc_nested (enc_nested enc_path)) v"
  unfolding write_paths4_def by (rule foldl_enc_nested) (rule write_paths3_enc)

text \<open>
  Claim C6, as amended. When ray paths are requested, there is more than one source and
  there is at least one reflector, one file is written if it can be opened (the run
  ends with an error if not). It holds, in this order, the direct ray paths of all
  sources, the paths from the sources to the reflectors for all reflectors and sources,
  and the paths from the reflectors to the receivers for all reflectors and sources;
  every nesting level comes after its own element count, and every path is its point
  count followed by its points.
\<close>

theorem rp_bin_layout:
  assumes "saveRaypaths" and "1 < nsrc" and "0 < nrefl"
  shows "(opens \<longrightarrow>
            save_rp_bin saveRaypaths nsrc nrefl opens r_data rfl_r_data rfl2_r_data =
              Inr (Some (enc_nested (enc_nested enc_path) r_data @
                         enc_nested (enc_nested (enc_nested enc_path)) rfl_r_data @
                         enc_nested (enc_nested (enc_nested enc_path)) rfl2_r_data))) \<and>
         (\<not> opens \<longrightarrow>
            save_rp_bin saveRaypaths nsrc nrefl opens r_data rfl_r_data rfl2_r_data =
              Inl CannotOpenFile)"
  using assms by (simp add: save_rp_bin_def write_paths3_enc write_paths4_enc)

theorem rp_bin_layout_witness:
  "save_rp_bin True 2 1 True [[[7, 8]], [[]]] [[[[1, 2, 3]], []]] [[[[3, 4]], []]] =
     Inr (Some ([Size 2, Size 1, Size 2, Point 7, Point 8, Size 1, Size 0] @
                [Size 1, Size 2, Size 1, Size 3, Point 1, Point 2, Point 3, Size 0] @
                [Size 1, Size 2, Size 1, Size 2, Point 3, Point (4 :: nat), Size 0])) \<and>
   save_rp_bin True 2 1 False [[[7, 8]], [[]]] [[[[1, 2, 3]], []]] [[[[3, 4 :: nat]], []]] =
     Inl CannotOpenFile"
  using rp_bin_layout [of True 2 1 True "[[[7, 8]], [[]]]" "[[[[1, 2, 3]], []]]"
      "[[[[3, 4 :: nat]], []]]"]
    rp_bin_layout [of True 2 1 False "[[[7, 8]], [[]]]" "[[[[1, 2, 3]], []]]"
      "[[[[3, 4 :: nat]], []]]"]
  by (simp add: enc_nested_def enc_path_def)

text \<open>
  Claim C6, as stated, fails: with ray paths requested and two sources but no reflector,
  the test \<^verbatim>\<open>par.saveRaypaths && reflectors.size() > 0\<close> of line 409 is false and no
  file is written.
\<close>

theorem rp_bin_not_written_without_reflector:
  "save_rp_bin True 2 0 True [[[7, 8 :: nat]], [[7, 9]]] [] [] = Inr None"
  by (simp add: save_rp_bin_def)

end
